theory Spec2Isabelle
  imports Main "HOL-Library.Word" "HOL-Library.Multiset"
begin

section \<open>Strings and numbers of the host language\<close>

text \<open>
  The bot is TypeScript. Its strings are sequences of 16-bit code units, and the regular
  expressions of the source (none carries the \<open>u\<close> flag) work on code units, so a string
  is modelled as a list of 16-bit words. \<open>js\<close> embeds an ASCII literal.
\<close>

type_synonym uchar = "16 word"
type_synonym jsstring = "uchar list"

definition js :: "string \<Rightarrow> jsstring" where
  "js s = map of_char s"

text \<open>
  Chat ids, user ids and page numbers are integral numbers far below \<open>10^21\<close>, where
  a template literal \<open>${n}\<close> prints the plain decimal digits, with a minus sign for a
  negative number (group chats have negative ids).
\<close>

definition digit_char :: "nat \<Rightarrow> uchar" where
  "digit_char d = of_nat (48 + d)"

fun digits_of_nat :: "nat \<Rightarrow> jsstring" where
  "digits_of_nat n =
     (if n < 10 then [digit_char n]
      else digits_of_nat (n div 10) @ [digit_char (n mod 10)])"

declare digits_of_nat.simps [simp del]

definition number_to_string :: "int \<Rightarrow> jsstring" where
  "number_to_string i =
     (if i < 0 then js ''-'' @ digits_of_nat (nat (- i)) else digits_of_nat (nat i))"

text \<open>
  \<open>String.prototype.startsWith\<close>, \<open>endsWith\<close> with a one-character argument,
  \<open>slice(1, -1)\<close> and \<open>substring(0, n)\<close>. \<open>slice(1, -1)\<close> of a string shorter than
  two units is empty, which \<open>butlast (tl s)\<close> gives as well.
\<close>

definition startsWith :: "jsstring \<Rightarrow> uchar \<Rightarrow> bool" where
  "startsWith s c = (case s of [] \<Rightarrow> False | x # _ \<Rightarrow> x = c)"

definition endsWith :: "jsstring \<Rightarrow> uchar \<Rightarrow> bool" where
  "endsWith s c = (case rev s of [] \<Rightarrow> False | x # _ \<Rightarrow> x = c)"

definition slice_1_m1 :: "jsstring \<Rightarrow> jsstring" where
  "slice_1_m1 s = butlast (tl s)"

definition substring0 :: "nat \<Rightarrow> jsstring \<Rightarrow> jsstring" where
  "substring0 n s = take n s"

text \<open>
  White space as \<open>\s\<close> and \<open>trim\<close> see it: the WhiteSpace and LineTerminator code units
  of ECMAScript.
\<close>

definition js_space :: "uchar \<Rightarrow> bool" where
  "js_space c =
     (c = 0x09 \<or> c = 0x0A \<or> c = 0x0B \<or> c = 0x0C \<or> c = 0x0D \<or> c = 0x20 \<or> c = 0xA0
      \<or> c = 0x1680 \<or> (0x2000 \<le> c \<and> c \<le> 0x200A) \<or> c = 0x2028 \<or> c = 0x2029
      \<or> c = 0x202F \<or> c = 0x205F \<or> c = 0x3000 \<or> c = 0xFEFF)"

definition trim :: "jsstring \<Rightarrow> jsstring" where
  "trim s = rev (dropWhile js_space (rev (dropWhile js_space s)))"


section \<open>Cache key derivation (RedisService)\<close>

text \<open>
  \<open>StatsPeriod\<close> is the string-literal union \<open>'all' | 'today' | 'week' | 'month'\<close>;
  \<open>period_name\<close> is the string a value of the type is at run time.
\<close>

datatype StatsPeriod = All | Today | Week | Month

fun period_name :: "StatsPeriod \<Rightarrow> jsstring" where
  "period_name All = js ''all''"
| "period_name Today = js ''today''"
| "period_name Week = js ''week''"
| "period_name Month = js ''month''"

fun getDaysLimit :: "StatsPeriod \<Rightarrow> int option" where
  "getDaysLimit Today = Some 1"
| "getDaysLimit Week = Some 7"
| "getDaysLimit Month = Some 30"
| "getDaysLimit All = None"

definition createStatsCacheKey :: "int \<Rightarrow> jsstring \<Rightarrow> jsstring" where
  "createStatsCacheKey chatId period =
     js ''stats:'' @ number_to_string chatId @ js '':'' @ period"

definition createUserStatsCacheKey :: "int \<Rightarrow> int \<Rightarrow> jsstring \<Rightarrow> jsstring" where
  "createUserStatsCacheKey chatId userId period =
     js ''user_stats:'' @ number_to_string chatId @ js '':'' @ number_to_string userId
       @ js '':'' @ period"

definition createUsersListCacheKey :: "int \<Rightarrow> jsstring" where
  "createUsersListCacheKey chatId = js ''users_list:'' @ number_to_string chatId"

text \<open>
  The character class \<open>[^a-zA-Z0-9\<cdots>]\<close> of \<open>createSearchCacheKey\<close>: besides the ASCII
  letters and digits it keeps the Cyrillic ranges U+0430..U+044F and U+0410..U+042F.
\<close>

definition key_char :: "uchar \<Rightarrow> bool" where
  "key_char c =
     ((0x61 \<le> c \<and> c \<le> 0x7A) \<or> (0x41 \<le> c \<and> c \<le> 0x5A) \<or> (0x30 \<le> c \<and> c \<le> 0x39)
      \<or> (0x430 \<le> c \<and> c \<le> 0x44F) \<or> (0x410 \<le> c \<and> c \<le> 0x42F))"

definition normalizedQuery :: "jsstring \<Rightarrow> jsstring" where
  "normalizedQuery query =
     substring0 50 (map (\<lambda>c. if key_char c then c else 0x5F) query)"

definition createSearchCacheKey :: "int \<Rightarrow> jsstring \<Rightarrow> nat \<Rightarrow> jsstring" where
  "createSearchCacheKey chatId query page =
     js ''search:'' @ number_to_string chatId @ js '':'' @ normalizedQuery query
       @ js '':'' @ number_to_string (int page)"



section \<open>The cache store (RedisService)\<close>

text \<open>
  The Redis client is an external collaborator. Its state is the stored entries, each
  with the expiry it was written with (\<open>setEx\<close>), and \<open>rejects\<close> says which commands
  the backend fails on (connection lost, timeout, any error of the client): a rejected
  command is the rejected promise of the source. Values are strings in the source; the
  type is left open here, and the orchestrator stores JSON texts in it.
\<close>

datatype redis_command = GET jsstring | SETEX jsstring nat | DEL jsstring

datatype backend_error = RedisError

record 'v redis_client =
  entries :: "jsstring \<rightharpoonup> ('v \<times> nat)"
  rejects :: "redis_command \<Rightarrow> bool"

definition client_get :: "'v redis_client \<Rightarrow> jsstring \<Rightarrow> backend_error + 'v option" where
  "client_get c key =
     (if rejects c (GET key) then Inl RedisError
      else Inr (map_option fst (entries c key)))"

definition client_setEx ::
  "'v redis_client \<Rightarrow> jsstring \<Rightarrow> nat \<Rightarrow> 'v \<Rightarrow> backend_error + 'v redis_client" where
  "client_setEx c key ttl v =
     (if rejects c (SETEX key ttl) then Inl RedisError
      else Inr (c\<lparr>entries := (entries c)(key \<mapsto> (v, ttl))\<rparr>))"

definition client_del :: "'v redis_client \<Rightarrow> jsstring \<Rightarrow> backend_error + 'v redis_client" where
  "client_del c key =
     (if rejects c (DEL key) then Inl RedisError
      else Inr (c\<lparr>entries := (entries c)(key := None)\<rparr>))"

text \<open>
  The service is the client and what it has written with \<open>console.error\<close>. Each
  method is a \<open>try\<close> around one client call; the \<open>catch\<close> logs and returns.
\<close>

record 'v RedisService =
  client :: "'v redis_client"
  console_error :: "jsstring list"

definition redis_get :: "'v RedisService \<Rightarrow> jsstring \<Rightarrow> 'v option \<times> 'v RedisService" where
  "redis_get svc key =
     (case client_get (client svc) key of
        Inr v \<Rightarrow> (v, svc)
      | Inl err \<Rightarrow>
          (None, svc\<lparr>console_error := console_error svc @ [js ''Redis GET error:'']\<rparr>))"

definition redis_set :: "'v RedisService \<Rightarrow> jsstring \<Rightarrow> 'v \<Rightarrow> nat \<Rightarrow> 'v RedisService" where
  "redis_set svc key v ttlSeconds =
     (case client_setEx (client svc) key ttlSeconds v of
        Inr c \<Rightarrow> svc\<lparr>client := c\<rparr>
      | Inl err \<Rightarrow> svc\<lparr>console_error := console_error svc @ [js ''Redis SET error:'']\<rparr>)"

definition redis_delete :: "'v RedisService \<Rightarrow> jsstring \<Rightarrow> 'v RedisService" where
  "redis_delete svc key =
     (case client_del (client svc) key of
        Inr c \<Rightarrow> svc\<lparr>client := c\<rparr>
      | Inl err \<Rightarrow> svc\<lparr>console_error := console_error svc @ [js ''Redis DELETE error:'']\<rparr>)"


section \<open>The message store\<close>

text \<open>
  The two tables of the schema, each the list of its rows in insertion order. \<open>id\<close>
  is the primary key of \<open>users\<close>: a lookup by id takes the one row that has it.
  Timestamps are seconds since the epoch. The database is taken to be reachable: the
  only query failure modelled is a pattern it rejects.
\<close>

record UserData =
  uid :: int
  username :: "jsstring option"
  first_name :: "jsstring option"
  last_name :: "jsstring option"
  user_created_at :: int

record MessageData =
  msg_id :: int
  user_id :: int
  chat_id :: int
  msg_text :: jsstring
  created_at :: int

record database =
  users :: "UserData list"
  messages :: "MessageData list"

definition findById :: "database \<Rightarrow> int \<Rightarrow> UserData option" where
  "findById db i = find (\<lambda>u. uid u = i) (users db)"

text \<open>
  What reaches a caller as a rejected promise or a thrown error: a query the database
  refuses, the \<open>Error('User not found')\<close> of \<open>getUserStatsData\<close>, and a
  \<open>SyntaxError\<close> of the \<open>RegExp\<close> constructor outside a \<open>try\<close>.
\<close>

datatype failure = StoreFailure | UserNotFound | RegExpSyntaxError

text \<open>
  \<open>ORDER BY created_at DESC\<close>: a stable sort, newest first. Rows with equal
  timestamps keep their table order (SQL leaves their order open).
\<close>

definition order_by_created_desc :: "('a \<Rightarrow> int) \<Rightarrow> 'a list \<Rightarrow> 'a list" where
  "order_by_created_desc t rows = sort_key (\<lambda>r. - t r) rows"

definition limit_offset :: "nat \<Rightarrow> nat \<Rightarrow> 'a list \<Rightarrow> 'a list" where
  "limit_offset lim off rows = take lim (drop off rows)"


section \<open>Pattern matching engines\<close>

text \<open>
  Two regular-expression engines stand outside the repository: PostgreSQL's (the
  operator \<open>~\<close> of the search query) and ECMAScript's (\<open>RegExp\<close> in \<open>highlightText\<close>).
  They are parameters of the model:
  \<^item> \<open>pg_regex p\<close> is \<open>None\<close> when PostgreSQL rejects the pattern \<open>p\<close> (the query then
    fails with "invalid regular expression"), and otherwise the predicate \<open>text ~ p\<close>;
  \<^item> \<open>pg_lower\<close> is the case folding of \<open>ILIKE\<close>;
  \<^item> \<open>js_canon\<close> is the canonicalization a \<open>RegExp\<close> with the flag \<open>i\<close> compares
    code units by;
  \<^item> \<open>js_replace_gi p\<close> is \<open>None\<close> when \<open>new RegExp(p, 'gi')\<close> throws, and otherwise
    the function that wraps every match of the expression in a text in \<open>**\<close>.
\<close>

record engines =
  pg_regex :: "jsstring \<Rightarrow> (jsstring \<Rightarrow> bool) option"
  pg_lower :: "uchar \<Rightarrow> uchar"
  js_canon :: "uchar \<Rightarrow> uchar"
  js_replace_gi :: "jsstring \<Rightarrow> (jsstring \<Rightarrow> jsstring) option"

text \<open>
  \<open>LIKE\<close>: \<open>%\<close> stands for any sequence, \<open>_\<close> for any one character, a backslash
  takes the next character literally. A pattern cannot end in a lone backslash here
  (the patterns of the source end in \<open>%\<close>), where PostgreSQL would raise.
  \<open>ILIKE\<close> folds the case of both sides first.
\<close>

fun like_match :: "jsstring \<Rightarrow> jsstring \<Rightarrow> bool" where
  "like_match [] t = (t = [])"
| "like_match (p # ps) t =
     (if p = 0x25 then
        (like_match ps t \<or> (case t of [] \<Rightarrow> False | c # cs \<Rightarrow> like_match (p # ps) cs))
      else if p = 0x5F then
        (case t of [] \<Rightarrow> False | c # cs \<Rightarrow> like_match ps cs)
      else if p = 0x5C then
        (case ps of
           [] \<Rightarrow> False
         | q # qs \<Rightarrow> (case t of [] \<Rightarrow> False | c # cs \<Rightarrow> c = q \<and> like_match qs cs))
      else
        (case t of [] \<Rightarrow> False | c # cs \<Rightarrow> c = p \<and> like_match ps cs))"

definition ilike :: "engines \<Rightarrow> jsstring \<Rightarrow> jsstring \<Rightarrow> bool" where
  "ilike env t pattern = like_match (map (pg_lower env) pattern) (map (pg_lower env) t)"

text \<open>
  \<open>escapeRegExp\<close>: the class \<open>[.*+?^${}()|[\]\\]\<close> is the syntax characters of a
  regular expression; each is replaced by a backslash and itself.
\<close>

definition regex_special :: "uchar \<Rightarrow> bool" where
  "regex_special c =
     (c = 0x2E \<or> c = 0x2A \<or> c = 0x2B \<or> c = 0x3F \<or> c = 0x5E \<or> c = 0x24 \<or> c = 0x7B
      \<or> c = 0x7D \<or> c = 0x28 \<or> c = 0x29 \<or> c = 0x7C \<or> c = 0x5B \<or> c = 0x5D \<or> c = 0x5C)"

definition escapeRegExp :: "jsstring \<Rightarrow> jsstring" where
  "escapeRegExp s = concat (map (\<lambda>c. if regex_special c then [0x5C, c] else [c]) s)"

text \<open>
  The fragment of the ECMAScript pattern language whose meaning is modelled here, the
  rest being \<open>js_replace_gi\<close>: a sequence of ordinary characters and of syntax
  characters written with a backslash, optionally inside one pair of parentheses.
  Such a pattern matches one string, character by character; \<open>literal_pattern\<close>
  reads that string, and is \<open>None\<close> outside the fragment.
\<close>

fun literal_pattern :: "jsstring \<Rightarrow> jsstring option" where
  "literal_pattern [] = Some []"
| "literal_pattern (c # cs) =
     (if c = 0x5C then
        (case cs of
           [] \<Rightarrow> None
         | d # ds \<Rightarrow>
             if regex_special d then map_option (\<lambda>l. d # l) (literal_pattern ds) else None)
      else if regex_special c then None
      else map_option (\<lambda>l. c # l) (literal_pattern cs))"

definition literal_of :: "jsstring \<Rightarrow> jsstring option" where
  "literal_of p =
     (case (if startsWith p 0x28 \<and> endsWith p 0x29 \<and> 2 \<le> length p
            then literal_pattern (slice_1_m1 p) else literal_pattern p) of
        None \<Rightarrow> None
      | Some l \<Rightarrow> if l = [] then None else Some l)"

text \<open>
  \<open>text.replace(regex, '**$&**')\<close> for a global, case-insensitive expression that
  matches the non-empty string \<open>lit\<close>: scanning from the left, a place where \<open>lit\<close>
  matches is replaced by the matched text between two pairs of asterisks and the scan
  goes on after the match; any other character is copied. (\<open>'**$1**'\<close> is the same
  when the whole expression is group 1.)
\<close>

definition ci_prefix :: "(uchar \<Rightarrow> uchar) \<Rightarrow> jsstring \<Rightarrow> jsstring \<Rightarrow> bool" where
  "ci_prefix canon lit t =
     (length lit \<le> length t \<and> map canon (take (length lit) t) = map canon lit)"

function replace_all_ci :: "(uchar \<Rightarrow> uchar) \<Rightarrow> jsstring \<Rightarrow> jsstring \<Rightarrow> jsstring" where
  "replace_all_ci canon lit t =
     (case t of
        [] \<Rightarrow> []
      | c # cs \<Rightarrow>
          if lit \<noteq> [] \<and> ci_prefix canon lit t
          then js ''**'' @ take (length lit) t @ js ''**''
                 @ replace_all_ci canon lit (drop (length lit) t)
          else c # replace_all_ci canon lit cs)"
  by pat_completeness auto
termination
  by (relation "measure (\<lambda>(canon, lit, t). length t)") auto

declare replace_all_ci.simps [simp del]

definition compile_gi :: "engines \<Rightarrow> jsstring \<Rightarrow> (jsstring \<Rightarrow> jsstring) option" where
  "compile_gi env p =
     (case literal_of p of
        Some lit \<Rightarrow> Some (replace_all_ci (js_canon env) lit)
      | None \<Rightarrow> js_replace_gi env p)"

text \<open>
  \<open>searchQuery.split(/\s+/).filter(word => word.length > 0)\<close>: the maximal runs of
  characters that are not white space.
\<close>

function split_words :: "jsstring \<Rightarrow> jsstring list" where
  "split_words s =
     (let r = dropWhile js_space s in
      if r = [] then []
      else takeWhile (\<lambda>c. \<not> js_space c) r # split_words (dropWhile (\<lambda>c. \<not> js_space c) r))"
  by pat_completeness auto
termination
proof (relation "measure length")
  show "wf (measure length)" by simp
next
  fix s r :: jsstring
  assume r: "r = dropWhile js_space s" and ne: "r \<noteq> []"
  have "length (dropWhile (\<lambda>c. \<not> js_space c) r) < length r"
  proof (cases r)
    case Nil
    with ne show ?thesis by simp
  next
    case (Cons c cs)
    then have "\<not> js_space c"
      using r by (metis hd_dropWhile list.sel(1) ne)
    then have "dropWhile (\<lambda>c. \<not> js_space c) r = dropWhile (\<lambda>c. \<not> js_space c) cs"
      using Cons by simp
    moreover have "length (dropWhile (\<lambda>c. \<not> js_space c) cs) \<le> length cs"
      by (rule length_dropWhile_le)
    ultimately show ?thesis using Cons by simp
  qed
  moreover have "length r \<le> length s"
    unfolding r by (rule length_dropWhile_le)
  ultimately show "(dropWhile (\<lambda>c. \<not> js_space c) r, s) \<in> measure length"
    by simp
qed

declare split_words.simps [simp del]

text \<open>
  \<open>highlightText\<close>. With \<open>isRegex\<close> the constructor stands in a \<open>try\<close> and a
  \<open>SyntaxError\<close> gives the text back. Otherwise each word is escaped, put in
  parentheses and compiled outside any \<open>try\<close>, and the words are applied one after
  another, each to the text the words before it have produced. (The pattern of a word
  always lies in the fragment modelled above, see \<open>compile_gi_word\<close> below: neither
  the engine parameter nor the error branch is ever reached from here.)
\<close>

fun highlight_words :: "engines \<Rightarrow> jsstring list \<Rightarrow> jsstring \<Rightarrow> failure + jsstring" where
  "highlight_words env [] highlightedText = Inr highlightedText"
| "highlight_words env (word # ws) highlightedText =
     (case compile_gi env (js ''('' @ escapeRegExp word @ js '')'') of
        None \<Rightarrow> Inl RegExpSyntaxError
      | Some replace \<Rightarrow> highlight_words env ws (replace highlightedText))"

definition highlightText :: "engines \<Rightarrow> jsstring \<Rightarrow> jsstring \<Rightarrow> bool \<Rightarrow> failure + jsstring" where
  "highlightText env t searchQuery isRegex =
     (if isRegex then
        (case compile_gi env (slice_1_m1 searchQuery) of
           None \<Rightarrow> Inr t
         | Some replace \<Rightarrow> Inr (replace t))
      else highlight_words env (split_words searchQuery) t)"


section \<open>The search engine (Message.searchMessages, Message.countSearchResults)\<close>

definition isRegex :: "jsstring \<Rightarrow> bool" where
  "isRegex searchQuery =
     (startsWith searchQuery 0x2F \<and> endsWith searchQuery 0x2F \<and> length searchQuery > 2)"

text \<open>
  The condition the two functions put into their query: \<open>text ~ $2\<close> with the
  enclosed pattern, or \<open>text ILIKE $2\<close> with the query between two \<open>%\<close>.
\<close>

datatype search_condition = RegexMatch jsstring | ILike jsstring

definition searchCondition :: "jsstring \<Rightarrow> search_condition" where
  "searchCondition searchQuery =
     (if isRegex searchQuery then RegexMatch (slice_1_m1 searchQuery)
      else ILike (js ''%'' @ searchQuery @ js ''%''))"

definition condition_holds :: "engines \<Rightarrow> search_condition \<Rightarrow> (jsstring \<Rightarrow> bool) option" where
  "condition_holds env cond =
     (case cond of
        RegexMatch p \<Rightarrow> pg_regex env p
      | ILike p \<Rightarrow> Some (\<lambda>t. ilike env t p))"

text \<open>
  \<open>FROM messages m WHERE m.chat_id = $1 AND <condition>\<close>. A pattern the database
  rejects fails the whole query. (The model lets it fail for a chat without messages
  as well, where the database may never come to read the pattern; the theorems on a
  rejected pattern are stated on a chat that has messages.)
\<close>

definition matching_messages ::
  "engines \<Rightarrow> database \<Rightarrow> int \<Rightarrow> search_condition \<Rightarrow> failure + MessageData list" where
  "matching_messages env db chatId cond =
     (case condition_holds env cond of
        None \<Rightarrow> Inl StoreFailure
      | Some holds \<Rightarrow>
          Inr (filter (\<lambda>m. chat_id m = chatId \<and> holds (msg_text m)) (messages db)))"

text \<open>\<open>JOIN users u ON m.user_id = u.id\<close>: a message whose user is missing has no row.\<close>

definition join_users :: "database \<Rightarrow> MessageData list \<Rightarrow> (MessageData \<times> UserData) list" where
  "join_users db ms =
     List.map_filter (\<lambda>m. map_option (\<lambda>u. (m, u)) (findById db (user_id m))) ms"

record SearchRow =
  row_id :: int
  row_user_id :: int
  row_username :: "jsstring option"
  row_first_name :: "jsstring option"
  row_last_name :: "jsstring option"
  row_text :: jsstring
  row_created_at :: int
  highlighted_text :: jsstring

fun map_result :: "('a \<Rightarrow> failure + 'b) \<Rightarrow> 'a list \<Rightarrow> failure + 'b list" where
  "map_result f [] = Inr []"
| "map_result f (x # xs) =
     (case f x of
        Inl e \<Rightarrow> Inl e
      | Inr y \<Rightarrow> (case map_result f xs of Inl e \<Rightarrow> Inl e | Inr ys \<Rightarrow> Inr (y # ys)))"

definition search_row ::
  "engines \<Rightarrow> jsstring \<Rightarrow> MessageData \<times> UserData \<Rightarrow> failure + SearchRow" where
  "search_row env searchQuery mu =
     (case highlightText env (msg_text (fst mu)) searchQuery (isRegex searchQuery) of
        Inl e \<Rightarrow> Inl e
      | Inr h \<Rightarrow>
          Inr \<lparr>row_id = msg_id (fst mu), row_user_id = user_id (fst mu),
               row_username = username (snd mu), row_first_name = first_name (snd mu),
               row_last_name = last_name (snd mu), row_text = msg_text (fst mu),
               row_created_at = created_at (fst mu), highlighted_text = h\<rparr>)"

definition searchMessages ::
  "engines \<Rightarrow> database \<Rightarrow> int \<Rightarrow> jsstring \<Rightarrow> nat \<Rightarrow> nat \<Rightarrow> failure + SearchRow list" where
  "searchMessages env db chatId searchQuery lim off =
     (case matching_messages env db chatId (searchCondition searchQuery) of
        Inl e \<Rightarrow> Inl e
      | Inr ms \<Rightarrow>
          map_result (search_row env searchQuery)
            (limit_offset lim off
               (order_by_created_desc (\<lambda>mu. created_at (fst mu)) (join_users db ms))))"

definition countSearchResults ::
  "engines \<Rightarrow> database \<Rightarrow> int \<Rightarrow> jsstring \<Rightarrow> failure + nat" where
  "countSearchResults env db chatId searchQuery =
     (case matching_messages env db chatId (searchCondition searchQuery) of
        Inl e \<Rightarrow> Inl e
      | Inr ms \<Rightarrow> Inr (length ms))"


section \<open>The statistics aggregator\<close>

text \<open>
  \<open>daysLimit || null\<close> and \<open>if (daysLimit)\<close>: an absent limit and the limit 0 are both
  falsy and give no date filter.
\<close>

definition truthy_days :: "int option \<Rightarrow> int option" where
  "truthy_days daysLimit =
     (case daysLimit of None \<Rightarrow> None | Some d \<Rightarrow> if d = 0 then None else Some d)"

text \<open>
  \<open>created_at >= CURRENT_TIMESTAMP - INTERVAL '1 day' * days_limit\<close>, with \<open>now\<close> the
  time of the query and a day of 86400 seconds; \<open>days_limit IS NULL\<close> filters nothing.
\<close>

definition in_window :: "int \<Rightarrow> int option \<Rightarrow> MessageData \<Rightarrow> bool" where
  "in_window now days_limit m =
     (case days_limit of None \<Rightarrow> True | Some d \<Rightarrow> created_at m \<ge> now - 86400 * d)"

record UserStats =
  message_count :: nat
  first_message :: "int option"
  last_message :: "int option"

text \<open>
  The SQL function \<open>get_user_stats\<close>: one row of aggregates over the user's messages in
  the window, also when there is none (\<open>COUNT\<close> is then 0, \<open>MIN\<close> and \<open>MAX\<close> are null).
\<close>

definition get_user_stats :: "database \<Rightarrow> int \<Rightarrow> int \<Rightarrow> int option \<Rightarrow> UserStats list" where
  "get_user_stats db now user_id_param days_limit =
     (let ts = map created_at
                 (filter (\<lambda>m. user_id m = user_id_param \<and> in_window now days_limit m)
                    (messages db))
      in [\<lparr>message_count = length ts,
           first_message = (case ts of [] \<Rightarrow> None | t # r \<Rightarrow> Some (fold min r t)),
           last_message = (case ts of [] \<Rightarrow> None | t # r \<Rightarrow> Some (fold max r t))\<rparr>])"

text \<open>\<open>User.getStats\<close>: \<open>result.rows[0] || null\<close>.\<close>

definition getStats :: "database \<Rightarrow> int \<Rightarrow> int \<Rightarrow> int option \<Rightarrow> UserStats option" where
  "getStats db now userId daysLimit =
     (case get_user_stats db now userId (truthy_days daysLimit) of
        [] \<Rightarrow> None
      | r # _ \<Rightarrow> Some r)"

definition getRecentMessages :: "database \<Rightarrow> int \<Rightarrow> nat \<Rightarrow> MessageData list" where
  "getRecentMessages db userId lim =
     rev (limit_offset lim 0
            (order_by_created_desc created_at
               (filter (\<lambda>m. user_id m = userId) (messages db))))"

record ChatUserStat =
  cu_user_id :: int
  cu_username :: "jsstring option"
  cu_first_name :: "jsstring option"
  cu_last_name :: "jsstring option"
  cu_message_count :: nat

text \<open>
  \<open>Message.getUserStats\<close>: the users of a chat with their message counts, most active
  first. The groups come in an order the table fixes and the sort is stable (SQL
  leaves the order of equal counts open).
\<close>

definition getUserStats :: "database \<Rightarrow> int \<Rightarrow> int \<Rightarrow> int option \<Rightarrow> ChatUserStat list" where
  "getUserStats db now chatId daysLimit =
     (let ms = map fst (join_users db
                 (filter (\<lambda>m. chat_id m = chatId \<and> in_window now (truthy_days daysLimit) m)
                    (messages db)));
          groups = List.map_filter
                     (\<lambda>i. map_option
                       (\<lambda>u. \<lparr>cu_user_id = i, cu_username = username u,
                              cu_first_name = first_name u, cu_last_name = last_name u,
                              cu_message_count = length (filter (\<lambda>m. user_id m = i) ms)\<rparr>)
                       (findById db i))
                     (remdups (map user_id ms))
      in sort_key (\<lambda>g. - int (cu_message_count g)) groups)"

definition getTopUsers :: "database \<Rightarrow> int \<Rightarrow> int \<Rightarrow> nat \<Rightarrow> int option \<Rightarrow> ChatUserStat list" where
  "getTopUsers db now chatId lim daysLimit = take lim (getUserStats db now chatId daysLimit)"

definition getTotalCount :: "database \<Rightarrow> int \<Rightarrow> int \<Rightarrow> int option \<Rightarrow> nat" where
  "getTotalCount db now chatId daysLimit =
     length (filter (\<lambda>m. chat_id m = chatId \<and> in_window now (truthy_days daysLimit) m)
               (messages db))"


section \<open>The read-through orchestrator (handlers)\<close>

text \<open>
  What the handlers keep in the cache is the \<open>JSON.stringify\<close> of one of four objects.
  A cached text is identified with the object it encodes, so \<open>JSON.parse\<close> of a
  stored text is the object that was stored (a timestamp comes back as the text of the
  same instant) and a stored text is never the empty, falsy string.
\<close>

record StatsData =
  sd_period :: StatsPeriod
  sd_totalMessages :: nat
  sd_topUsers :: "ChatUserStat list"
  sd_cached :: bool

record UserStatsData =
  ud_user :: UserData
  ud_stats :: "UserStats option"
  ud_recentMessages :: "MessageData list"
  ud_cached :: bool

record SearchResult =
  sr_query :: jsstring
  sr_totalResults :: nat
  sr_results :: "SearchRow list"
  sr_page :: nat
  sr_totalPages :: nat
  sr_cached :: bool

datatype cached_json =
  StatsJson StatsData
| UserStatsJson UserStatsData
| UsersListJson "ChatUserStat list"
| SearchJson SearchResult

type_synonym cache = "cached_json RedisService"

text \<open>
  \<open>parsedData.cached = true\<close>. The user list is an array: it has no such field, and
  the handler that reads it sets none.
\<close>

fun mark_cached :: "cached_json \<Rightarrow> cached_json" where
  "mark_cached (StatsJson d) = StatsJson (d\<lparr>sd_cached := True\<rparr>)"
| "mark_cached (UserStatsJson d) = UserStatsJson (d\<lparr>ud_cached := True\<rparr>)"
| "mark_cached (UsersListJson l) = UsersListJson l"
| "mark_cached (SearchJson d) = SearchJson (d\<lparr>sr_cached := True\<rparr>)"

fun cached_flag :: "cached_json \<Rightarrow> bool option" where
  "cached_flag (StatsJson d) = Some (sd_cached d)"
| "cached_flag (UserStatsJson d) = Some (ud_cached d)"
| "cached_flag (UsersListJson l) = None"
| "cached_flag (SearchJson d) = Some (sr_cached d)"

definition getStatsData ::
  "cache \<Rightarrow> database \<Rightarrow> int \<Rightarrow> int \<Rightarrow> StatsPeriod \<Rightarrow> cached_json \<times> cache" where
  "getStatsData svc db now chatId period =
     (let cacheKey = createStatsCacheKey chatId (period_name period);
          (cachedData, svc1) = redis_get svc cacheKey
      in case cachedData of
           Some parsedData \<Rightarrow> (mark_cached parsedData, svc1)
         | None \<Rightarrow>
             (let daysLimit = getDaysLimit period;
                  topUsers = getTopUsers db now chatId 10 daysLimit;
                  totalMessages = getTotalCount db now chatId daysLimit;
                  statsData = StatsJson \<lparr>sd_period = period, sd_totalMessages = totalMessages,
                                          sd_topUsers = topUsers, sd_cached = False\<rparr>
              in (statsData, redis_set svc1 cacheKey statsData 1200)))"

text \<open>The cache-aside lines at the head of \<open>handleUsersList\<close>.\<close>

definition usersListData ::
  "cache \<Rightarrow> database \<Rightarrow> int \<Rightarrow> int \<Rightarrow> cached_json \<times> cache" where
  "usersListData svc db now chatId =
     (let cacheKey = createUsersListCacheKey chatId;
          (cachedUsers, svc1) = redis_get svc cacheKey
      in case cachedUsers of
           Some parsed \<Rightarrow> (parsed, svc1)
         | None \<Rightarrow>
             (let usrs = UsersListJson (getUserStats db now chatId None)
              in (usrs, redis_set svc1 cacheKey usrs 600)))"

definition getUserStatsData ::
  "cache \<Rightarrow> database \<Rightarrow> int \<Rightarrow> int \<Rightarrow> int \<Rightarrow> StatsPeriod
     \<Rightarrow> (failure + cached_json) \<times> cache" where
  "getUserStatsData svc db now chatId userId period =
     (let cacheKey = createUserStatsCacheKey chatId userId (period_name period);
          (cachedData, svc1) = redis_get svc cacheKey
      in case cachedData of
           Some parsedData \<Rightarrow> (Inr (mark_cached parsedData), svc1)
         | None \<Rightarrow>
             (case findById db userId of
                None \<Rightarrow> (Inl UserNotFound, svc1)
              | Some usr \<Rightarrow>
                  (let daysLimit = getDaysLimit period;
                       sts = getStats db now userId daysLimit;
                       recent = getRecentMessages db userId 5;
                       data = UserStatsJson \<lparr>ud_user = usr, ud_stats = sts,
                                             ud_recentMessages = recent, ud_cached = False\<rparr>
                   in (Inr data, redis_set svc1 cacheKey data 600))))"

text \<open>
  \<open>getSearchResults\<close>. \<open>Math.ceil(totalResults / resultsPerPage)\<close> on a count is the
  integer division rounded up.
\<close>

definition getSearchResults ::
  "cache \<Rightarrow> engines \<Rightarrow> database \<Rightarrow> int \<Rightarrow> jsstring \<Rightarrow> nat
     \<Rightarrow> (failure + cached_json) \<times> cache" where
  "getSearchResults svc env db chatId searchQuery page =
     (let cacheKey = createSearchCacheKey chatId searchQuery page;
          (cachedData, svc1) = redis_get svc cacheKey
      in case cachedData of
           Some parsedData \<Rightarrow> (Inr (mark_cached parsedData), svc1)
         | None \<Rightarrow>
             (let resultsPerPage = 5;
                  off = page * resultsPerPage
              in case searchMessages env db chatId searchQuery resultsPerPage off of
                   Inl e \<Rightarrow> (Inl e, svc1)
                 | Inr rows \<Rightarrow>
                     (case countSearchResults env db chatId searchQuery of
                        Inl e \<Rightarrow> (Inl e, svc1)
                      | Inr totalResults \<Rightarrow>
                          (let totalPages = (totalResults + (resultsPerPage - 1)) div resultsPerPage;
                               searchResult =
                                 SearchJson \<lparr>sr_query = searchQuery,
                                             sr_totalResults = totalResults, sr_results = rows,
                                             sr_page = page, sr_totalPages = totalPages,
                                             sr_cached = False\<rparr>
                           in (Inr searchResult,
                               redis_set svc1 cacheKey searchResult 600)))))"

text \<open>
  \<open>handleSearchCommand\<close>. The chat of the update (absent, or its type and id) and the
  text of its message (absent for a callback) are the inputs; the replies sent are the
  output. Formatting the result page and its keyboard is the parameter \<open>fmt\<close>, \<open>None\<close>
  when it throws; any error lands in the \<open>catch\<close> of the handler, which replies that
  the search failed. \<open>text.split(' ').slice(1).join(' ')\<close> is the text after the first
  space.
\<close>

datatype chat_type = PrivateChat | GroupChat | SuperGroup | ChannelChat

datatype 'm reply =
  GroupsOnly | Usage | Searching | NothingFound jsstring | ResultsMessage 'm | SearchFailed

definition after_first_space :: "jsstring \<Rightarrow> jsstring" where
  "after_first_space t = (case dropWhile (\<lambda>c. c \<noteq> 0x20) t of [] \<Rightarrow> [] | _ # r \<Rightarrow> r)"

fun search_total :: "cached_json \<Rightarrow> nat option" where
  "search_total (SearchJson r) = Some (sr_totalResults r)"
| "search_total _ = None"

definition handleSearchCommand ::
  "(cached_json \<Rightarrow> 'm option) \<Rightarrow> cache \<Rightarrow> engines \<Rightarrow> database
     \<Rightarrow> (chat_type \<times> int) option \<Rightarrow> jsstring option \<Rightarrow> 'm reply list \<times> cache" where
  "handleSearchCommand fmt svc env db chat message_text =
     (case chat of
        None \<Rightarrow> ([GroupsOnly], svc)
      | Some (ty, chatId) \<Rightarrow>
          if ty \<noteq> GroupChat \<and> ty \<noteq> SuperGroup then ([GroupsOnly], svc)
          else
            (let args = (case message_text of None \<Rightarrow> [] | Some t \<Rightarrow> after_first_space t);
                 searchQuery = trim args
             in if searchQuery = [] then ([Usage], svc)
                else
                  (case getSearchResults svc env db chatId searchQuery 0 of
                     (Inl e, svc1) \<Rightarrow> ([Searching, SearchFailed], svc1)
                   | (Inr searchResult, svc1) \<Rightarrow>
                       if search_total searchResult = Some 0
                       then ([Searching, NothingFound searchQuery], svc1)
                       else
                         (case fmt searchResult of
                            None \<Rightarrow> ([Searching, SearchFailed], svc1)
                          | Some m \<Rightarrow> ([Searching, ResultsMessage m], svc1)))))"


text \<open>The rows of a result of \<open>getSearchResults\<close>: none when it failed.\<close>

definition page_rows :: "failure + cached_json \<Rightarrow> SearchRow list" where
  "page_rows r = (case r of Inr (SearchJson d) \<Rightarrow> sr_results d | _ \<Rightarrow> [])"


text \<open>
  What a best-effort write leaves in the backend: the entry with its expiry when the
  backend takes the command, the entries as they were when it rejects it.
\<close>

definition stored_best_effort ::
  "cache \<Rightarrow> cache \<Rightarrow> jsstring \<Rightarrow> cached_json \<Rightarrow> nat \<Rightarrow> bool" where
  "stored_best_effort svc svc' k doc ttl =
     (entries (client svc') =
        (if rejects (client svc) (SETEX k ttl) then entries (client svc)
         else (entries (client svc))(k \<mapsto> (doc, ttl))))"


text \<open>A query without the metacharacters of \<open>LIKE\<close>: no \<open>%\<close>, \<open>_\<close> or backslash.\<close>

definition like_plain :: "jsstring \<Rightarrow> bool" where
  "like_plain q = list_all (\<lambda>c. c \<noteq> 0x25 \<and> c \<noteq> 0x5F \<and> c \<noteq> 0x5C) q"


text \<open>
  Occurrences, for stating what highlighting does: \<open>m\<close> is an occurrence of the term
  \<open>w\<close> when the two agree up to case, and \<open>w\<close> (not empty) occurs in \<open>t\<close> when an
  occurrence starts at some place of \<open>t\<close>.
\<close>

definition ci_match :: "(uchar \<Rightarrow> uchar) \<Rightarrow> jsstring \<Rightarrow> jsstring \<Rightarrow> bool" where
  "ci_match canon w m = (map canon m = map canon w)"

fun ci_occurs :: "(uchar \<Rightarrow> uchar) \<Rightarrow> jsstring \<Rightarrow> jsstring \<Rightarrow> bool" where
  "ci_occurs canon w [] = False"
| "ci_occurs canon w (c # cs) = (ci_prefix canon w (c # cs) \<or> ci_occurs canon w cs)"


section \<open>Sample data\<close>

text \<open>
  Engines for evaluating the model on concrete inputs. They know the patterns made of
  ASCII letters, digits and spaces only, which both real engines match as plain
  substrings (PostgreSQL's \<open>~\<close> with the case as written), and treat every other
  pattern as rejected, as both real engines do with the unbalanced bracket of the test
  suite's \<open>[invalid\<close>. Case folding is that of ASCII.
\<close>

definition plain_char :: "uchar \<Rightarrow> bool" where
  "plain_char c =
     ((0x61 \<le> c \<and> c \<le> 0x7A) \<or> (0x41 \<le> c \<and> c \<le> 0x5A) \<or> (0x30 \<le> c \<and> c \<le> 0x39)
      \<or> c = 0x20)"

fun contains :: "jsstring \<Rightarrow> jsstring \<Rightarrow> bool" where
  "contains p [] = (p = [])"
| "contains p (c # cs) = (take (length p) (c # cs) = p \<or> contains p cs)"

definition ascii_lower :: "uchar \<Rightarrow> uchar" where
  "ascii_lower c = (if 0x41 \<le> c \<and> c \<le> 0x5A then c + 0x20 else c)"

definition ascii_upper :: "uchar \<Rightarrow> uchar" where
  "ascii_upper c = (if 0x61 \<le> c \<and> c \<le> 0x7A then c - 0x20 else c)"

definition sample_engines :: engines where
  "sample_engines =
     \<lparr>pg_regex = (\<lambda>p. if p \<noteq> [] \<and> list_all plain_char p then Some (contains p) else None),
      pg_lower = ascii_lower,
      js_canon = ascii_upper,
      js_replace_gi = (\<lambda>p. None)\<rparr>"

definition empty_cache :: cache where
  "empty_cache =
     \<lparr>client = \<lparr>entries = Map.empty, rejects = (\<lambda>c. False)\<rparr>, console_error = []\<rparr>"

definition down_cache :: cache where
  "down_cache =
     \<lparr>client = \<lparr>entries = Map.empty, rejects = (\<lambda>c. True)\<rparr>, console_error = []\<rparr>"

text \<open>
  The chat of the specification's scenario: chat 100 with "hello world" (user 1, t=1),
  "Hello again" (user 1, t=2) and "bye" (user 2, t=3).
\<close>

definition alice :: UserData where
  "alice = \<lparr>uid = 1, username = Some (js ''alice''), first_name = None, last_name = None,
            user_created_at = 0\<rparr>"

definition bob :: UserData where
  "bob = \<lparr>uid = 2, username = None, first_name = Some (js ''Bob''), last_name = None,
          user_created_at = 0\<rparr>"

definition msg1 :: MessageData where
  "msg1 = \<lparr>msg_id = 1, user_id = 1, chat_id = 100, msg_text = js ''hello world'',
           created_at = 1\<rparr>"

definition msg2 :: MessageData where
  "msg2 = \<lparr>msg_id = 2, user_id = 1, chat_id = 100, msg_text = js ''Hello again'',
           created_at = 2\<rparr>"

definition msg3 :: MessageData where
  "msg3 = \<lparr>msg_id = 3, user_id = 2, chat_id = 100, msg_text = js ''bye'', created_at = 3\<rparr>"



definition sample_db :: database where
  "sample_db = \<lparr>users = [alice, bob], messages = [msg1, msg2, msg3]\<rparr>"


section \<open>Evaluation rules\<close>

lemma split_words_unfold:
  "split_words s =
     (if dropWhile js_space s = [] then []
      else takeWhile (\<lambda>c. \<not> js_space c) (dropWhile js_space s)
           # split_words (dropWhile (\<lambda>c. \<not> js_space c) (dropWhile js_space s)))"
  by (subst split_words.simps) (simp only: Let_def)

lemma replace_all_ci_Nil: "replace_all_ci canon lit [] = []"
  by (simp add: replace_all_ci.simps)

lemma replace_all_ci_Cons:
  "replace_all_ci canon lit (c # cs) =
     (if lit \<noteq> [] \<and> ci_prefix canon lit (c # cs)
      then js ''**'' @ take (length lit) (c # cs) @ js ''**''
             @ replace_all_ci canon lit (drop (length lit) (c # cs))
      else c # replace_all_ci canon lit cs)"
  by (subst replace_all_ci.simps) simp

lemmas eval_defs =
  js_def sample_db_def msg1_def msg2_def msg3_def alice_def bob_def sample_engines_def
  empty_cache_def isRegex_def startsWith_def endsWith_def slice_1_m1_def
  searchCondition_def condition_holds_def matching_messages_def join_users_def
  findById_def map_filter_simps order_by_created_desc_def limit_offset_def
  search_row_def highlightText_def split_words_unfold js_space_def
  compile_gi_def literal_of_def regex_special_def escapeRegExp_def
  replace_all_ci_Nil replace_all_ci_Cons ci_prefix_def ascii_upper_def ascii_lower_def
  ilike_def searchMessages_def countSearchResults_def

lemmas eval_cache =
  getSearchResults_def redis_get_def redis_set_def client_get_def client_setEx_def
  createSearchCacheKey_def normalizedQuery_def substring0_def key_char_def
  number_to_string_def digits_of_nat.simps digit_char_def page_rows_def Let_def


section \<open>Properties of the cache keys\<close>

lemma digit_char_not_colon: "d < 10 \<Longrightarrow> digit_char d \<noteq> 0x3A"
  unfolding digit_char_def
  by (auto simp: word_eq_iff_unsigned[where ?'a=nat] unat_of_nat simp del: of_nat_add)

lemma digits_of_nat_no_colon: "0x3A \<notin> set (digits_of_nat n)"
proof (induction n rule: digits_of_nat.induct)
  case (1 n)
  show ?case
  proof (cases "n < 10")
    case True
    then show ?thesis
      using digit_char_not_colon [of n] by (auto simp: digits_of_nat.simps [of n])
  next
    case False
    have "n mod 10 < 10" by simp
    then have "digit_char (n mod 10) \<noteq> 0x3A" by (rule digit_char_not_colon)
    with False 1 show ?thesis
      by (auto simp: digits_of_nat.simps [of n])
  qed
qed

lemma number_to_string_no_colon: "0x3A \<notin> set (number_to_string i)"
  by (simp add: number_to_string_def js_def digits_of_nat_no_colon)

lemma key_char_not_colon: "key_char c \<Longrightarrow> c \<noteq> 0x3A"
  by (auto simp: key_char_def)

lemma normalizedQuery_no_colon: "0x3A \<notin> set (normalizedQuery q)"
proof
  assume "0x3A \<in> set (normalizedQuery q)"
  then have "0x3A \<in> set (map (\<lambda>c. if key_char c then c else 0x5F) q)"
    unfolding normalizedQuery_def substring0_def by (rule in_set_takeD)
  then have "0x3A \<in> (\<lambda>c. if key_char c then c else 0x5F) ` set q"
    by simp
  then obtain c where "(0x3A :: uchar) = (if key_char c then c else 0x5F)"
    by blast
  then show False
    using key_char_not_colon [of c] by (simp split: if_splits)
qed

lemma split_at_colon:
  assumes "a @ 0x3A # b = a' @ 0x3A # b'"
    and "(0x3A :: uchar) \<notin> set a" and "0x3A \<notin> set a'"
  shows "a = a' \<and> b = b'"
  using assms
proof (induction a arbitrary: a')
  case Nil
  then show ?case by (cases a') auto
next
  case (Cons x xs)
  then show ?case by (cases a') auto
qed

lemma length_normalizedQuery: "length (normalizedQuery q) = min 50 (length q)"
  by (simp add: normalizedQuery_def substring0_def min.commute)

lemma nth_normalizedQuery:
  "i < length (normalizedQuery q) \<Longrightarrow>
     normalizedQuery q ! i = (if key_char (q ! i) then q ! i else 0x5F)"
  by (simp add: normalizedQuery_def substring0_def)

lemma search_key_same_normal_form:
  assumes "createSearchCacheKey c1 q1 p1 = createSearchCacheKey c2 q2 p2"
  shows "normalizedQuery q1 = normalizedQuery q2"
proof -
  from assms have
    "number_to_string c1 @ 0x3A # (normalizedQuery q1 @ 0x3A # number_to_string (int p1))
     = number_to_string c2 @ 0x3A # (normalizedQuery q2 @ 0x3A # number_to_string (int p2))"
    by (simp add: createSearchCacheKey_def js_def)
  then have
    "normalizedQuery q1 @ 0x3A # number_to_string (int p1)
     = normalizedQuery q2 @ 0x3A # number_to_string (int p2)"
    using split_at_colon number_to_string_no_colon by blast
  then show ?thesis
    using split_at_colon normalizedQuery_no_colon by blast
qed

lemma period_name_inj: "period_name p = period_name p' \<Longrightarrow> p = p'"
  by (cases p; cases p') (simp_all add: js_def)

text \<open>
  C5. Each key function returns the documented format; the normalized query keeps a
  code unit of the alphabet (ASCII letters and digits, Cyrillic U+0410..U+044F), puts an
  underscore for any other, and is cut to at most 50 units; two periods of one chat
  never share a stats key; two queries whose normalized forms differ never share a
  search key, whatever the chats and pages. (Determinism is that of a function.)
\<close>

theorem cache_key_derivation:
  "createStatsCacheKey chatId p
     = js ''stats:'' @ number_to_string chatId @ js '':'' @ p
   \<and> createUserStatsCacheKey chatId userId p
     = js ''user_stats:'' @ number_to_string chatId @ js '':'' @ number_to_string userId
         @ js '':'' @ p
   \<and> createUsersListCacheKey chatId = js ''users_list:'' @ number_to_string chatId
   \<and> createSearchCacheKey chatId q pg
     = js ''search:'' @ number_to_string chatId @ js '':'' @ normalizedQuery q
         @ js '':'' @ number_to_string (int pg)
   \<and> length (normalizedQuery q) = min 50 (length q)
   \<and> (\<forall>i < length (normalizedQuery q).
        normalizedQuery q ! i = (if key_char (q ! i) then q ! i else 0x5F))
   \<and> ((createStatsCacheKey chatId (period_name p1) = createStatsCacheKey chatId (period_name p2))
        = (p1 = p2))
   \<and> (normalizedQuery q1 \<noteq> normalizedQuery q2 \<longrightarrow>
        createSearchCacheKey c1 q1 pg1 \<noteq> createSearchCacheKey c2 q2 pg2)"
proof -
  have a: "createStatsCacheKey chatId p
     = js ''stats:'' @ number_to_string chatId @ js '':'' @ p"
    by (simp add: createStatsCacheKey_def)
  have b: "createUserStatsCacheKey chatId userId p
     = js ''user_stats:'' @ number_to_string chatId @ js '':'' @ number_to_string userId
         @ js '':'' @ p"
    by (simp add: createUserStatsCacheKey_def)
  have c: "createUsersListCacheKey chatId = js ''users_list:'' @ number_to_string chatId"
    by (simp add: createUsersListCacheKey_def)
  have d: "createSearchCacheKey chatId q pg
     = js ''search:'' @ number_to_string chatId @ js '':'' @ normalizedQuery q
         @ js '':'' @ number_to_string (int pg)"
    by (simp add: createSearchCacheKey_def)
  have e: "length (normalizedQuery q) = min 50 (length q)"
    by (rule length_normalizedQuery)
  have f: "\<forall>i < length (normalizedQuery q).
     normalizedQuery q ! i = (if key_char (q ! i) then q ! i else 0x5F)"
    by (simp add: nth_normalizedQuery)
  have g: "(createStatsCacheKey chatId (period_name p1)
          = createStatsCacheKey chatId (period_name p2)) = (p1 = p2)"
    by (auto simp: createStatsCacheKey_def dest: period_name_inj)
  have h: "normalizedQuery q1 \<noteq> normalizedQuery q2 \<longrightarrow>
     createSearchCacheKey c1 q1 pg1 \<noteq> createSearchCacheKey c2 q2 pg2"
    using search_key_same_normal_form by blast
  from a b c d e f g h show ?thesis by blast
qed

theorem cache_key_derivation_witness:
  "createStatsCacheKey 100 (js ''week'') = js ''stats:100:week''
   \<and> createUserStatsCacheKey 100 42 (js ''month'') = js ''user_stats:100:42:month''
   \<and> createUsersListCacheKey (- 1001) = js ''users_list:-1001''
   \<and> createSearchCacheKey 123 (js ''hello world'') 2 = js ''search:123:hello_world:2''
   \<and> normalizedQuery (js ''a b'') \<noteq> normalizedQuery (js ''ab'')
   \<and> createSearchCacheKey 1 (js ''a b'') 0 \<noteq> createSearchCacheKey 1 (js ''ab'') 0"
proof -
  note ev = number_to_string_def digits_of_nat.simps digit_char_def js_def
    normalizedQuery_def substring0_def key_char_def
  have d: "normalizedQuery (js ''a b'') \<noteq> normalizedQuery (js ''ab'')"
    by (simp add: ev)
  have k1: "createStatsCacheKey 100 (js ''week'') = js ''stats:100:week''"
    using cache_key_derivation [of 100 "js ''week''"] by (simp add: ev)
  have k2: "createUserStatsCacheKey 100 42 (js ''month'') = js ''user_stats:100:42:month''"
    using cache_key_derivation [of 100 "js ''month''" 42] by (simp add: ev)
  have k3: "createUsersListCacheKey (- 1001) = js ''users_list:-1001''"
    using cache_key_derivation [of "- 1001"] by (simp add: ev)
  have k4: "createSearchCacheKey 123 (js ''hello world'') 2 = js ''search:123:hello_world:2''"
    using cache_key_derivation [of 123 _ _ "js ''hello world''" 2] by (simp add: ev)
  have k5: "createSearchCacheKey 1 (js ''a b'') 0 \<noteq> createSearchCacheKey 1 (js ''ab'') 0"
    using d cache_key_derivation [of _ _ _ _ _ _ _ "js ''a b''" "js ''ab''" 1 0 1 0]
    by blast
  from k1 k2 k3 k4 d k5 show ?thesis by blast
qed


section \<open>Properties of the cache store\<close>

text \<open>
  C7. \<open>get\<close> returns the stored value or absence, and absence when the backend
  rejects the command; \<open>set\<close> and \<open>delete\<close> change nothing but the error log when the
  backend rejects them. The three functions return plain values: no backend failure
  reaches their caller. A value written is the value read back.
\<close>

theorem cache_store_swallows_failures:
  "redis_get svc k =
     (if rejects (client svc) (GET k)
      then (None, svc\<lparr>console_error := console_error svc @ [js ''Redis GET error:'']\<rparr>)
      else (map_option fst (entries (client svc) k), svc))
   \<and> redis_set svc k v ttl =
     (if rejects (client svc) (SETEX k ttl)
      then svc\<lparr>console_error := console_error svc @ [js ''Redis SET error:'']\<rparr>
      else svc\<lparr>client := (client svc)\<lparr>entries := (entries (client svc))(k \<mapsto> (v, ttl))\<rparr>\<rparr>)
   \<and> redis_delete svc k =
     (if rejects (client svc) (DEL k)
      then svc\<lparr>console_error := console_error svc @ [js ''Redis DELETE error:'']\<rparr>
      else svc\<lparr>client := (client svc)\<lparr>entries := (entries (client svc))(k := None)\<rparr>\<rparr>)
   \<and> (\<not> rejects (client svc) (SETEX k ttl) \<and> \<not> rejects (client svc) (GET k) \<longrightarrow>
        fst (redis_get (redis_set svc k v ttl) k) = Some v)"
  by (simp add: redis_get_def redis_set_def redis_delete_def client_get_def client_setEx_def
      client_del_def)

theorem cache_store_swallows_failures_witness:
  "redis_get down_cache (js ''k'') = (None, down_cache\<lparr>console_error := [js ''Redis GET error:'']\<rparr>)
   \<and> redis_set down_cache (js ''k'') (UsersListJson []) 600
        = down_cache\<lparr>console_error := [js ''Redis SET error:'']\<rparr>
   \<and> redis_delete down_cache (js ''k'') = down_cache\<lparr>console_error := [js ''Redis DELETE error:'']\<rparr>
   \<and> fst (redis_get (redis_set empty_cache (js ''k'') (UsersListJson []) 600) (js ''k''))
        = Some (UsersListJson [])"
proof -
  note down = cache_store_swallows_failures [of down_cache "js ''k''" "UsersListJson []" 600]
  note up = cache_store_swallows_failures [of empty_cache "js ''k''" "UsersListJson []" 600]
  have r: "rejects (client down_cache) c" "console_error down_cache = []" for c
    by (simp_all add: down_cache_def)
  have g: "redis_get down_cache (js ''k'')
      = (None, down_cache\<lparr>console_error := [js ''Redis GET error:'']\<rparr>)"
    using down r by simp
  have s: "redis_set down_cache (js ''k'') (UsersListJson []) 600
      = down_cache\<lparr>console_error := [js ''Redis SET error:'']\<rparr>"
    using down r by simp
  have d: "redis_delete down_cache (js ''k'')
      = down_cache\<lparr>console_error := [js ''Redis DELETE error:'']\<rparr>"
    using down r by simp
  have "\<not> rejects (client empty_cache) (SETEX (js ''k'') 600)
      \<and> \<not> rejects (client empty_cache) (GET (js ''k''))"
    by (simp add: empty_cache_def)
  with up have
    "fst (redis_get (redis_set empty_cache (js ''k'') (UsersListJson []) 600) (js ''k''))
      = Some (UsersListJson [])"
    by blast
  with g s d show ?thesis by blast
qed


section \<open>Properties of the statistics aggregator\<close>

lemma sorted_rev_of_neg:
  "sorted (map (\<lambda>x. - f x) xs) \<Longrightarrow> sorted (rev (map (f :: 'a \<Rightarrow> int) xs))"
  by (simp add: sorted_wrt_rev sorted_wrt_map flip: rev_map)

lemma sorted_order_desc:
  "sorted (map (\<lambda>x. - t x) (order_by_created_desc t xs))"
  by (simp add: order_by_created_desc_def)

lemma mset_order_desc: "mset (order_by_created_desc t xs) = mset xs"
  by (simp add: order_by_created_desc_def)

text \<open>
  C10. \<open>getRecentMessages\<close> returns the \<open>n\<close> newest messages of the user (all of them
  when there are fewer), oldest first: every message of the user left out is at most as
  new as every message returned, and the result is the reversed head of the list
  ordered by descending creation time.
\<close>

theorem recent_messages_window:
  "\<exists>older.
     mset (older @ getRecentMessages db userId n)
       = mset (filter (\<lambda>m. user_id m = userId) (messages db))
     \<and> (\<forall>a \<in> set older. \<forall>r \<in> set (getRecentMessages db userId n).
          created_at a \<le> created_at r)
     \<and> sorted (map created_at (getRecentMessages db userId n))
     \<and> length (getRecentMessages db userId n)
          = min n (length (filter (\<lambda>m. user_id m = userId) (messages db)))
     \<and> getRecentMessages db userId n
          = rev (take n (order_by_created_desc created_at
                           (filter (\<lambda>m. user_id m = userId) (messages db))))"
proof -
  define xs where "xs = filter (\<lambda>m. user_id m = userId) (messages db)"
  define s where "s = order_by_created_desc created_at xs"
  have res: "getRecentMessages db userId n = rev (take n s)"
    by (simp add: getRecentMessages_def limit_offset_def s_def xs_def)
  have srt: "sorted (map (\<lambda>m. - created_at m) s)"
    unfolding s_def by (rule sorted_order_desc)
  have split: "take n s @ drop n s = s" by simp
  have "sorted (map (\<lambda>m. - created_at m) (take n s) @ map (\<lambda>m. - created_at m) (drop n s))"
    using srt by (simp flip: map_append)
  then have cross: "\<forall>a \<in> set (take n s). \<forall>b \<in> set (drop n s). created_at b \<le> created_at a"
    and srt_take: "sorted (map (\<lambda>m. - created_at m) (take n s))"
    by (auto simp: sorted_append)
  have m: "mset (drop n s @ rev (take n s)) = mset xs"
  proof -
    have "mset (drop n s @ rev (take n s)) = mset (take n s @ drop n s)"
      by (simp only: mset_append mset_rev union_commute)
    also have "\<dots> = mset xs" by (simp add: s_def mset_order_desc)
    finally show ?thesis .
  qed
  have asc: "sorted (map created_at (rev (take n s)))"
    using sorted_rev_of_neg [OF srt_take] by (simp add: rev_map)
  have len: "length (rev (take n s)) = min n (length xs)"
  proof -
    have "length s = length xs"
      using mset_order_desc [of created_at xs] by (metis s_def size_mset)
    then show ?thesis by (simp add: min.commute)
  qed
  have older: "\<forall>a \<in> set (drop n s). \<forall>r \<in> set (rev (take n s)). created_at a \<le> created_at r"
    using cross by auto
  show ?thesis
    unfolding res xs_def [symmetric]
    using m older asc len s_def by blast
qed

theorem recent_messages_window_witness:
  "getRecentMessages sample_db 1 1 = [msg2] \<and> getRecentMessages sample_db 1 5 = [msg1, msg2]
   \<and> sorted (map created_at (getRecentMessages sample_db 1 5))"
proof -
  have ord: "order_by_created_desc created_at
               (filter (\<lambda>m. user_id m = 1) (messages sample_db)) = [msg2, msg1]"
    by (simp add: order_by_created_desc_def sample_db_def msg1_def msg2_def msg3_def)
  from recent_messages_window [of sample_db 1 1] ord
  have a: "getRecentMessages sample_db 1 1 = [msg2]" by auto
  from recent_messages_window [of sample_db 1 5] ord
  have b: "getRecentMessages sample_db 1 5 = [msg1, msg2]"
    and c: "sorted (map created_at (getRecentMessages sample_db 1 5))" by auto
  from a b c show ?thesis by blast
qed

lemma min_max_of_list:
  "(case ts of [] \<Rightarrow> None | t # r \<Rightarrow> Some (fold min r (t :: int)))
     = (if ts = [] then None else Some (Min (set ts)))"
  "(case ts of [] \<Rightarrow> None | t # r \<Rightarrow> Some (fold max r (t :: int)))
     = (if ts = [] then None else Some (Max (set ts)))"
proof -
  have "fold min r t = Min (set (t # r))" "fold max r t = Max (set (t # r))" for t :: int and r
    by (simp_all only: Min.set_eq_fold Max.set_eq_fold)
  then show
    "(case ts of [] \<Rightarrow> None | t # r \<Rightarrow> Some (fold min r (t :: int)))
       = (if ts = [] then None else Some (Min (set ts)))"
    "(case ts of [] \<Rightarrow> None | t # r \<Rightarrow> Some (fold max r (t :: int)))
       = (if ts = [] then None else Some (Max (set ts)))"
    by (cases ts; simp del: set_simps)+
qed

text \<open>
  C9, as the code has it. Per-user stats are the count, the earliest and the latest
  timestamp of the user's messages, over all of them when no limit is given or when the
  limit is 0 (a falsy limit is dropped before the query), and otherwise over those with
  \<open>created_at >= now - daysLimit\<close> days. The result is never null: with no message in
  the window it is the row with count 0 and both timestamps null.
\<close>

theorem user_stats_window:
  "getStats db now userId daysLimit =
     (let ms = filter (\<lambda>m. user_id m = userId
                  \<and> (case daysLimit of
                       None \<Rightarrow> True
                     | Some d \<Rightarrow> d = 0 \<or> now - 86400 * d \<le> created_at m))
                (messages db)
      in Some \<lparr>message_count = length ms,
               first_message = (if ms = [] then None else Some (Min (set (map created_at ms)))),
               last_message = (if ms = [] then None else Some (Max (set (map created_at ms))))\<rparr>)"
proof (cases daysLimit)
  case None
  then show ?thesis
    by (simp add: getStats_def get_user_stats_def truthy_days_def in_window_def Let_def
        min_max_of_list)
next
  case (Some d)
  then show ?thesis
    by (cases "d = 0")
      (simp_all add: getStats_def get_user_stats_def truthy_days_def in_window_def Let_def
        min_max_of_list)
qed

theorem user_stats_window_witness:
  "getStats sample_db 86402 1 (Some 1)
     = Some \<lparr>message_count = 1, first_message = Some 2, last_message = Some 2\<rparr>
   \<and> getStats sample_db 86402 1 None
     = Some \<lparr>message_count = 2, first_message = Some 1, last_message = Some 2\<rparr>
   \<and> getStats sample_db 86402 7 None
     = Some \<lparr>message_count = 0, first_message = None, last_message = None\<rparr>"
proof -
  note ev = sample_db_def msg1_def msg2_def msg3_def Let_def
  have a: "getStats sample_db 86402 1 (Some 1)
     = Some \<lparr>message_count = 1, first_message = Some 2, last_message = Some 2\<rparr>"
    using user_stats_window [of sample_db 86402 1 "Some 1"] by (simp add: ev)
  have b: "getStats sample_db 86402 1 None
     = Some \<lparr>message_count = 2, first_message = Some 1, last_message = Some 2\<rparr>"
    using user_stats_window [of sample_db 86402 1 None] by (simp add: ev)
  have c: "getStats sample_db 86402 7 None
     = Some \<lparr>message_count = 0, first_message = None, last_message = None\<rparr>"
    using user_stats_window [of sample_db 86402 7 None] by (simp add: ev)
  from a b c show ?thesis by blast
qed

text \<open>
  C9 as the specification words it restricts to \<open>created_at >= now - daysLimit\<close> days
  whenever a limit is given. With the limit 0 that window holds no message of the
  sample chat, and the code counts both messages of user 1.
\<close>

theorem user_stats_zero_days_counterexample:
  "\<not> (\<forall>db now userId daysLimit.
        map_option message_count (getStats db now userId daysLimit)
          = Some (length (filter (\<lambda>m. user_id m = userId \<and> in_window now daysLimit m)
                            (messages db))))"
proof
  assume "\<forall>db now userId daysLimit.
        map_option message_count (getStats db now userId daysLimit)
          = Some (length (filter (\<lambda>m. user_id m = userId \<and> in_window now daysLimit m)
                            (messages db)))"
  then have "map_option message_count (getStats sample_db 86402 1 (Some 0))
      = Some (length (filter (\<lambda>m. user_id m = 1 \<and> in_window 86402 (Some 0) m)
                        (messages sample_db)))"
    by blast
  then show False
    by (simp add: getStats_def get_user_stats_def truthy_days_def in_window_def Let_def
        sample_db_def msg1_def msg2_def msg3_def)
qed


section \<open>Properties of highlighting\<close>

lemma literal_pattern_escapeRegExp: "literal_pattern (escapeRegExp w) = Some w"
proof (induction w)
  case Nil
  then show ?case by (simp add: escapeRegExp_def)
next
  case (Cons c w)
  have e: "escapeRegExp (c # w) = (if regex_special c then [0x5C, c] else [c]) @ escapeRegExp w"
    by (simp add: escapeRegExp_def)
  show ?case
  proof (cases "regex_special c")
    case True
    with Cons e show ?thesis by simp
  next
    case False
    then have "c \<noteq> 0x5C" by (auto simp: regex_special_def)
    with False Cons e show ?thesis by simp
  qed
qed

lemma literal_of_group:
  assumes "w \<noteq> []"
  shows "literal_of (js ''('' @ escapeRegExp w @ js '')'') = Some w"
proof -
  have "slice_1_m1 (js ''('' @ escapeRegExp w @ js '')'') = escapeRegExp w"
    by (simp add: slice_1_m1_def js_def butlast_append)
  moreover have "startsWith (js ''('' @ escapeRegExp w @ js '')'') 0x28"
    by (simp add: startsWith_def js_def)
  moreover have "endsWith (js ''('' @ escapeRegExp w @ js '')'') 0x29"
    by (simp add: endsWith_def js_def)
  moreover have "2 \<le> length (js ''('' @ escapeRegExp w @ js '')'')"
    by (simp add: js_def)
  ultimately show ?thesis
    using assms by (simp add: literal_of_def literal_pattern_escapeRegExp)
qed

lemma compile_gi_word:
  "w \<noteq> [] \<Longrightarrow>
     compile_gi env (js ''('' @ escapeRegExp w @ js '')'') = Some (replace_all_ci (js_canon env) w)"
  by (simp add: compile_gi_def literal_of_group)

lemma split_words_nonempty: "w \<in> set (split_words s) \<Longrightarrow> w \<noteq> []"
proof (induction s rule: split_words.induct)
  case (1 s)
  define r where "r = dropWhile js_space s"
  show ?case
  proof (cases "r = []")
    case True
    then have "split_words s = []"
      unfolding r_def by (subst split_words_unfold) simp
    with 1(2) show ?thesis by simp
  next
    case False
    then have hd: "\<not> js_space (hd r)"
      unfolding r_def by (metis hd_dropWhile)
    then have ne: "takeWhile (\<lambda>c. \<not> js_space c) r \<noteq> []"
      using False by (cases r) auto
    have "split_words s
        = takeWhile (\<lambda>c. \<not> js_space c) r # split_words (dropWhile (\<lambda>c. \<not> js_space c) r)"
      using False unfolding r_def by (subst split_words_unfold) (simp only: if_False)
    with 1(2)
    have "w = takeWhile (\<lambda>c. \<not> js_space c) r
        \<or> w \<in> set (split_words (dropWhile (\<lambda>c. \<not> js_space c) r))"
      by simp
    then show ?thesis
      using ne 1(1) [OF r_def False] by auto
  qed
qed

lemma highlight_words_total:
  "\<forall>w \<in> set ws. w \<noteq> [] \<Longrightarrow>
     highlight_words env ws t = Inr (fold (replace_all_ci (js_canon env)) ws t)"
  by (induction ws arbitrary: t) (simp_all add: compile_gi_word)

lemma highlightText_literal:
  "highlightText env t q False
     = Inr (fold (replace_all_ci (js_canon env)) (split_words q) t)"
  by (simp add: highlightText_def highlight_words_total split_words_nonempty)

lemma highlightText_total: "\<exists>h. highlightText env t q b = Inr h"
proof (cases b)
  case True
  then show ?thesis by (simp add: highlightText_def split: option.splits)
next
  case False
  then show ?thesis by (simp add: highlightText_literal)
qed

lemma highlight_uncompilable_regex:
  "compile_gi env (slice_1_m1 q) = None \<Longrightarrow> highlightText env t q True = Inr t"
  by (simp add: highlightText_def)

lemma replace_all_ci_no_occurrence:
  "\<not> ci_occurs canon w t \<Longrightarrow> replace_all_ci canon w t = t"
  by (induction t) (simp_all add: replace_all_ci_Nil replace_all_ci_Cons)

lemma fold_no_occurrence:
  "\<forall>w \<in> set ws. \<not> ci_occurs canon w t \<Longrightarrow> fold (replace_all_ci canon) ws t = t"
  by (induction ws) (simp_all add: replace_all_ci_no_occurrence)

lemma ci_prefix_append:
  "length w \<le> length t \<Longrightarrow> ci_prefix canon w (t @ r) = ci_prefix canon w t"
  by (simp add: ci_prefix_def)

lemma ci_match_length: "ci_match canon w m \<Longrightarrow> length m = length w"
  unfolding ci_match_def by (metis length_map)

lemma replace_all_ci_leftmost:
  assumes ne: "w \<noteq> []" and m: "ci_match canon w m"
    and first: "\<not> ci_occurs canon w (pre @ butlast m)"
  shows "replace_all_ci canon w (pre @ m @ post)
           = pre @ js ''**'' @ m @ js ''**'' @ replace_all_ci canon w post"
  using first
proof (induction pre)
  case Nil
  have len: "length m = length w" using m by (rule ci_match_length)
  with ne obtain c cs where mc: "m = c # cs" by (cases m) auto
  have "ci_prefix canon w (m @ post)"
    using m len by (simp add: ci_prefix_def ci_match_def)
  moreover have "take (length w) (m @ post) = m" "drop (length w) (m @ post) = post"
    using len by simp_all
  ultimately have "replace_all_ci canon w ((c # cs) @ post)
      = js ''**'' @ m @ js ''**'' @ replace_all_ci canon w post"
    using ne mc by (simp add: replace_all_ci_Cons)
  then show ?case using mc by simp
next
  case (Cons c pre)
  have len: "length m = length w" using m by (rule ci_match_length)
  with ne have mne: "m \<noteq> []" by auto
  from Cons.prems have np: "\<not> ci_prefix canon w (c # pre @ butlast m)"
    and no: "\<not> ci_occurs canon w (pre @ butlast m)"
    by simp_all
  have lw: "length w \<le> length (c # pre @ butlast m)"
    using len mne by simp
  have "butlast m @ [last m] = m" using mne by simp
  then have "m @ post = butlast m @ ([last m] @ post)" by (metis append_assoc)
  then have eq: "c # pre @ m @ post = (c # pre @ butlast m) @ ([last m] @ post)" by simp
  have "ci_prefix canon w (c # pre @ m @ post) = ci_prefix canon w (c # pre @ butlast m)"
    unfolding eq using lw by (rule ci_prefix_append)
  with np have "\<not> ci_prefix canon w (c # pre @ m @ post)" by blast
  then have "replace_all_ci canon w (c # pre @ m @ post)
      = c # replace_all_ci canon w (pre @ m @ post)"
    by (simp add: replace_all_ci_Cons)
  with Cons.IH [OF no] show ?case by simp
qed

text \<open>
  C6, as the code has it. Escaping makes a term a pattern that stands for the term
  itself, so compiling it never fails; the terms are applied in turn, each to the text
  the terms before it have left. For a query of one term the highlighted text is found
  by scanning from the left: the text up to the leftmost occurrence is copied, the
  occurrence is put between two pairs of asterisks, and the rest of the text after the
  occurrence is treated the same way. A text in which no term occurs is returned
  unchanged.
\<close>

theorem highlight_literal_terms:
  "literal_pattern (escapeRegExp w) = Some w
   \<and> highlightText env t q False
       = Inr (fold (replace_all_ci (js_canon env)) (split_words q) t)
   \<and> ((\<forall>w \<in> set (split_words q). \<not> ci_occurs (js_canon env) w t) \<longrightarrow>
        highlightText env t q False = Inr t)
   \<and> (split_words q = [w] \<and> ci_match (js_canon env) w m
        \<and> \<not> ci_occurs (js_canon env) w (pre @ butlast m) \<longrightarrow>
        (\<exists>h. highlightText env post q False = Inr h
           \<and> highlightText env (pre @ m @ post) q False
               = Inr (pre @ js ''**'' @ m @ js ''**'' @ h)))"
proof -
  have a: "literal_pattern (escapeRegExp w) = Some w"
    by (rule literal_pattern_escapeRegExp)
  have b: "highlightText env t q False
       = Inr (fold (replace_all_ci (js_canon env)) (split_words q) t)"
    by (rule highlightText_literal)
  have c: "(\<forall>w \<in> set (split_words q). \<not> ci_occurs (js_canon env) w t) \<longrightarrow>
        highlightText env t q False = Inr t"
    by (simp add: highlightText_literal fold_no_occurrence)
  have d: "split_words q = [w] \<and> ci_match (js_canon env) w m
        \<and> \<not> ci_occurs (js_canon env) w (pre @ butlast m) \<longrightarrow>
        (\<exists>h. highlightText env post q False = Inr h
           \<and> highlightText env (pre @ m @ post) q False
               = Inr (pre @ js ''**'' @ m @ js ''**'' @ h))"
  proof
    assume h: "split_words q = [w] \<and> ci_match (js_canon env) w m
        \<and> \<not> ci_occurs (js_canon env) w (pre @ butlast m)"
    then have "w \<in> set (split_words q)" by simp
    then have ne: "w \<noteq> []" by (rule split_words_nonempty)
    from h replace_all_ci_leftmost [OF ne, of "js_canon env" m pre post]
    have "replace_all_ci (js_canon env) w (pre @ m @ post)
           = pre @ js ''**'' @ m @ js ''**'' @ replace_all_ci (js_canon env) w post"
      by blast
    with h show "\<exists>h. highlightText env post q False = Inr h
           \<and> highlightText env (pre @ m @ post) q False
               = Inr (pre @ js ''**'' @ m @ js ''**'' @ h)"
      by (simp add: highlightText_literal)
  qed
  from a b c d show ?thesis by blast
qed

theorem highlight_literal_terms_witness:
  "literal_pattern (escapeRegExp (js ''a.b'')) = Some (js ''a.b'')
   \<and> escapeRegExp (js ''a.b'') = [0x61, 0x5C, 0x2E, 0x62]
   \<and> highlightText sample_engines (js ''Hello again'') (js ''hello'') False
       = Inr (js ''**Hello** again'')
   \<and> highlightText sample_engines (js ''bye'') (js ''hello world'') False = Inr (js ''bye'')"
proof -
  note inst = highlight_literal_terms [of "js ''hello''" sample_engines "js '' again''"
      "js ''hello''" "js ''Hello''" "[]" "js '' again''"]
  note inst2 = highlight_literal_terms [of "js ''a.b''" sample_engines "js ''bye''"
      "js ''hello world''"]
  have sw: "split_words (js ''hello'') = [js ''hello'']"
    by (simp add: split_words_unfold js_def js_space_def)
  have mt: "ci_match (js_canon sample_engines) (js ''hello'') (js ''Hello'')"
    by (simp add: ci_match_def sample_engines_def ascii_upper_def js_def)
  have first: "\<not> ci_occurs (js_canon sample_engines) (js ''hello'') ([] @ butlast (js ''Hello''))"
    by (simp add: ci_prefix_def sample_engines_def ascii_upper_def js_def)
  have rest: "\<forall>w \<in> set (split_words (js ''hello'')).
      \<not> ci_occurs (js_canon sample_engines) w (js '' again'')"
    by (simp add: sw) (simp add: ci_prefix_def sample_engines_def ascii_upper_def js_def)
  from inst rest have r: "highlightText sample_engines (js '' again'') (js ''hello'') False
      = Inr (js '' again'')"
    by blast
  from inst sw mt first obtain h where
    "highlightText sample_engines (js '' again'') (js ''hello'') False = Inr h"
    "highlightText sample_engines ([] @ js ''Hello'' @ js '' again'') (js ''hello'') False
       = Inr ([] @ js ''**'' @ js ''Hello'' @ js ''**'' @ h)"
    by blast
  with r have a: "highlightText sample_engines (js ''Hello again'') (js ''hello'') False
       = Inr (js ''**Hello** again'')"
    by (simp add: js_def)
  have none: "\<forall>w \<in> set (split_words (js ''hello world'')).
      \<not> ci_occurs (js_canon sample_engines) w (js ''bye'')"
    by (simp add: split_words_unfold js_def js_space_def ci_prefix_def sample_engines_def)
  with inst2 have b: "highlightText sample_engines (js ''bye'') (js ''hello world'') False
      = Inr (js ''bye'')"
    by blast
  from inst2 have c: "literal_pattern (escapeRegExp (js ''a.b'')) = Some (js ''a.b'')"
    by blast
  have d: "escapeRegExp (js ''a.b'') = [0x61, 0x5C, 0x2E, 0x62]"
    by (simp add: escapeRegExp_def regex_special_def js_def)
  from a b c d show ?thesis by blast
qed

text \<open>
  C6 as the specification words it wraps every occurrence of every term. Occurrences
  that overlap are not all wrapped: in "aAa" the term "aa" occurs at the first and at
  the second character, and only the first occurrence is wrapped. And a later term is
  looked for in the text the earlier terms have left: with the terms "ab" and "b" the
  text "ab" ends with its occurrence of "ab" cut in two.
\<close>

theorem highlight_every_occurrence_counterexample:
  "highlightText sample_engines (js ''aAa'') (js ''aa'') False = Inr (js ''**aA**a'')
   \<and> ci_match (js_canon sample_engines) (js ''aa'') (js ''Aa'')
   \<and> js ''aAa'' = js ''a'' @ js ''Aa'' @ []
   \<and> \<not> contains (js ''**Aa**'') (js ''**aA**a'')
   \<and> highlightText sample_engines (js ''ab'') (js ''ab b'') False = Inr (js ''**a**b****'')
   \<and> \<not> contains (js ''**ab**'') (js ''**a**b****'')"
  by (simp add: eval_defs ci_match_def)


section \<open>Properties of the search engine\<close>

lemma search_row_total: "\<exists>r. search_row env q mu = Inr r"
  using highlightText_total [of env "msg_text (fst mu)" q "isRegex q"]
  by (auto simp: search_row_def)

lemma map_result_Inr_iff:
  "map_result f xs = Inr ys \<longleftrightarrow> list_all2 (\<lambda>x y. f x = Inr y) xs ys"
proof (induction xs arbitrary: ys)
  case Nil
  then show ?case by auto
next
  case (Cons x xs)
  note IH = Cons.IH
  show ?case
  proof (cases ys)
    case Nil
    then show ?thesis by (simp split: sum.splits)
  next
    case (Cons y ys')
    show ?thesis
    proof (cases "f x")
      case (Inl e)
      then show ?thesis using Cons by simp
    next
      case (Inr y')
      show ?thesis
      proof (cases "map_result f xs")
        case (Inl e)
        with IH [of ys'] have "\<not> list_all2 (\<lambda>x y. f x = Inr y) xs ys'" by simp
        with Inl Inr Cons show ?thesis by simp
      next
        case r: (Inr zs)
        with IH [of zs] have z: "list_all2 (\<lambda>x y. f x = Inr y) xs zs" by simp
        have "(zs = ys') = list_all2 (\<lambda>x y. f x = Inr y) xs ys'"
          using IH [of ys'] r by auto
        with Inr r Cons show ?thesis by auto
      qed
    qed
  qed
qed

lemma map_result_total:
  assumes "\<And>x. \<exists>y. f x = Inr y"
  shows "\<exists>ys. map_result f xs = Inr ys"
proof (induction xs)
  case Nil
  then show ?case by simp
next
  case (Cons x xs)
  then obtain ys where "map_result f xs = Inr ys" by blast
  moreover obtain y where "f x = Inr y" using assms by blast
  ultimately show ?case by simp
qed

lemma map_result_take_drop:
  assumes "map_result f xs = Inr ys"
  shows "map_result f (take n (drop k xs)) = Inr (take n (drop k ys))"
  using assms
  by (simp add: map_result_Inr_iff list_all2_takeI list_all2_dropI)

lemma map_result_length: "map_result f xs = Inr ys \<Longrightarrow> length ys = length xs"
  by (simp add: map_result_Inr_iff list_all2_lengthD)




lemma map_fst_join_users:
  "map fst (join_users db ms) = filter (\<lambda>m. findById db (user_id m) \<noteq> None) ms"
  by (induction ms) (auto simp: join_users_def map_filter_simps split: option.splits)

lemma length_join_users_le: "length (join_users db ms) \<le> length ms"
proof -
  have "length (join_users db ms) = length (map fst (join_users db ms))" by simp
  also have "\<dots> \<le> length ms"
    unfolding map_fst_join_users by (rule length_filter_le)
  finally show ?thesis .
qed

lemma search_row_fields:
  assumes "search_row env q mu = Inr r"
  shows "row_id r = msg_id (fst mu)" "row_created_at r = created_at (fst mu)"
    "row_text r = msg_text (fst mu)"
    "highlightText env (msg_text (fst mu)) q (isRegex q) = Inr (highlighted_text r)"
  using assms by (auto simp: search_row_def split: sum.splits)

lemma list_all2_map_eq:
  assumes "list_all2 R xs ys" and "\<And>x y. R x y \<Longrightarrow> g y = f x"
  shows "map g ys = map f xs"
  using assms by (induction rule: list_all2_induct) auto

lemma ranked_rows:
  assumes "map_result (search_row env q) ranked = Inr full"
  shows "map row_id full = map (\<lambda>mu. msg_id (fst mu)) ranked"
    and "map row_created_at full = map (\<lambda>mu. created_at (fst mu)) ranked"
proof -
  from assms have r: "list_all2 (\<lambda>x y. search_row env q x = Inr y) ranked full"
    by (simp add: map_result_Inr_iff)
  show "map row_id full = map (\<lambda>mu. msg_id (fst mu)) ranked"
    by (rule list_all2_map_eq [OF r]) (simp add: search_row_fields)
  show "map row_created_at full = map (\<lambda>mu. created_at (fst mu)) ranked"
    by (rule list_all2_map_eq [OF r]) (simp add: search_row_fields)
qed

lemma search_engine_pages:
  fixes db :: database and c :: int
  assumes holds: "condition_holds env (searchCondition q) = Some holds"
  defines "ms \<equiv> filter (\<lambda>m. chat_id m = c \<and> holds (msg_text m)) (messages db)"
  shows "\<exists>full.
      (\<forall>lim off. searchMessages env db c q lim off = Inr (take lim (drop off full)))
      \<and> searchMessages env db c q (length (messages db)) 0 = Inr full
      \<and> countSearchResults env db c q = Inr (length ms)
      \<and> length full \<le> length ms
      \<and> ((\<forall>m \<in> set (messages db). findById db (user_id m) \<noteq> None) \<longrightarrow>
           length full = length ms)
      \<and> sorted (map (\<lambda>r. - row_created_at r) full)
      \<and> mset (map row_id full)
           = mset (map msg_id (filter (\<lambda>m. findById db (user_id m) \<noteq> None) ms))"
proof -
  define ranked where
    "ranked = order_by_created_desc (\<lambda>mu. created_at (fst mu)) (join_users db ms)"
  have mm: "matching_messages env db c (searchCondition q) = Inr ms"
    by (simp add: matching_messages_def holds ms_def)
  obtain full where full: "map_result (search_row env q) ranked = Inr full"
    using map_result_total [of "search_row env q" ranked] search_row_total by blast
  have page: "searchMessages env db c q lim off = Inr (take lim (drop off full))" for lim off
    using map_result_take_drop [OF full]
    by (simp add: searchMessages_def mm limit_offset_def ranked_def)
  have len_ranked: "length ranked = length (join_users db ms)"
    using mset_order_desc [of "\<lambda>mu. created_at (fst mu)" "join_users db ms"]
    by (metis ranked_def size_mset)
  have len_full: "length full = length (join_users db ms)"
    using map_result_length [OF full] len_ranked by simp
  have le: "length full \<le> length ms"
    using len_full length_join_users_le [of db ms] by simp
  have "length ms \<le> length (messages db)"
    unfolding ms_def by (rule length_filter_le)
  with le have "take (length (messages db)) (drop 0 full) = full" by simp
  with page [of "length (messages db)" 0]
  have whole: "searchMessages env db c q (length (messages db)) 0 = Inr full" by simp
  have cnt: "countSearchResults env db c q = Inr (length ms)"
    by (simp add: countSearchResults_def mm)
  have fk: "length full = length ms"
    if "\<forall>m \<in> set (messages db). findById db (user_id m) \<noteq> None"
  proof -
    from that have "\<forall>m \<in> set ms. findById db (user_id m) \<noteq> None"
      by (simp add: ms_def)
    then have "filter (\<lambda>m. findById db (user_id m) \<noteq> None) ms = ms"
      by (simp only: filter_id_conv)
    then have "length (map fst (join_users db ms)) = length ms"
      by (simp only: map_fst_join_users)
    with len_full show ?thesis by simp
  qed
  have "sorted (map (\<lambda>mu. - created_at (fst mu)) ranked)"
    unfolding ranked_def by (rule sorted_order_desc)
  moreover have "map (\<lambda>r. - row_created_at r) full = map (\<lambda>mu. - created_at (fst mu)) ranked"
  proof -
    have "map (\<lambda>r. - row_created_at r) full = map uminus (map row_created_at full)"
      by simp
    also have "\<dots> = map uminus (map (\<lambda>mu. created_at (fst mu)) ranked)"
      by (simp only: ranked_rows(2) [OF full])
    finally show ?thesis by simp
  qed
  ultimately have srt: "sorted (map (\<lambda>r. - row_created_at r) full)" by simp
  have ids: "mset (map row_id full)
      = mset (map msg_id (filter (\<lambda>m. findById db (user_id m) \<noteq> None) ms))"
  proof -
    have "mset (map row_id full) = mset (map (\<lambda>mu. msg_id (fst mu)) ranked)"
      by (simp only: ranked_rows(1) [OF full])
    also have "\<dots> = image_mset (\<lambda>mu. msg_id (fst mu)) (mset (join_users db ms))"
      by (simp add: ranked_def mset_order_desc)
    also have "\<dots> = mset (map msg_id (map fst (join_users db ms)))"
      by (simp add: image_mset.compositionality comp_def)
    finally show ?thesis by (simp only: map_fst_join_users)
  qed
  from page whole cnt le fk srt ids show ?thesis by blast
qed

lemma condition_holds_literal:
  "\<not> isRegex q \<Longrightarrow>
     condition_holds env (searchCondition q) = Some (\<lambda>t. ilike env t (js ''%'' @ q @ js ''%''))"
  by (simp add: condition_holds_def searchCondition_def)

lemma like_match_percent_only: "like_match [0x25] t"
  by (induction t) simp_all

lemma like_match_percent:
  "like_match (0x25 # p) t \<longleftrightarrow> (\<exists>pre r. t = pre @ r \<and> like_match p r)"
proof (induction t)
  case Nil
  then show ?case by simp
next
  case (Cons c cs)
  have "like_match (0x25 # p) (c # cs) \<longleftrightarrow> like_match p (c # cs) \<or> like_match (0x25 # p) cs"
    by simp
  also have "\<dots> \<longleftrightarrow> like_match p (c # cs) \<or> (\<exists>pre r. cs = pre @ r \<and> like_match p r)"
    by (simp only: Cons)
  also have "\<dots> \<longleftrightarrow> (\<exists>pre r. c # cs = pre @ r \<and> like_match p r)"
  proof
    assume "like_match p (c # cs) \<or> (\<exists>pre r. cs = pre @ r \<and> like_match p r)"
    then show "\<exists>pre r. c # cs = pre @ r \<and> like_match p r"
    proof
      assume "like_match p (c # cs)"
      then have "c # cs = [] @ (c # cs) \<and> like_match p (c # cs)" by simp
      then show ?thesis by blast
    next
      assume "\<exists>pre r. cs = pre @ r \<and> like_match p r"
      then obtain pre r where "cs = pre @ r" "like_match p r" by blast
      then have "c # cs = (c # pre) @ r \<and> like_match p r" by simp
      then show ?thesis by blast
    qed
  next
    assume "\<exists>pre r. c # cs = pre @ r \<and> like_match p r"
    then obtain pre r where e: "c # cs = pre @ r" and l: "like_match p r" by blast
    show "like_match p (c # cs) \<or> (\<exists>pre r. cs = pre @ r \<and> like_match p r)"
    proof (cases pre)
      case Nil
      with e l show ?thesis by simp
    next
      case (Cons d ds)
      with e have "cs = ds @ r" by simp
      with l show ?thesis by blast
    qed
  qed
  finally show ?case .
qed

lemma like_match_plain:
  "like_plain q \<Longrightarrow> like_match (q @ p) t \<longleftrightarrow> (\<exists>r. t = q @ r \<and> like_match p r)"
proof (induction q arbitrary: t)
  case Nil
  then show ?case by simp
next
  case (Cons c q)
  then have c: "c \<noteq> 0x25" "c \<noteq> 0x5F" "c \<noteq> 0x5C" and q: "like_plain q"
    by (simp_all add: like_plain_def)
  show ?case
  proof (cases t)
    case Nil
    with c show ?thesis by simp
  next
    case (Cons d ds)
    with c Cons.IH [OF q, of ds] show ?thesis by auto
  qed
qed

lemma literal_query_is_substring:
  assumes "pg_lower env 0x25 = 0x25" and "like_plain (map (pg_lower env) q)"
  shows "ilike env t (js ''%'' @ q @ js ''%'')
     \<longleftrightarrow> (\<exists>pre post. map (pg_lower env) t = pre @ map (pg_lower env) q @ post)"
proof -
  have "ilike env t (js ''%'' @ q @ js ''%'')
      = like_match (0x25 # map (pg_lower env) q @ [0x25]) (map (pg_lower env) t)"
    using assms(1) by (simp add: ilike_def js_def)
  also have "\<dots> \<longleftrightarrow> (\<exists>pre r. map (pg_lower env) t = pre @ r
        \<and> like_match (map (pg_lower env) q @ [0x25]) r)"
    by (rule like_match_percent)
  also have "\<dots> \<longleftrightarrow> (\<exists>pre r. map (pg_lower env) t = pre @ r
        \<and> (\<exists>post. r = map (pg_lower env) q @ post))"
    by (simp add: like_match_plain [OF assms(2)] like_match_percent_only
        del: like_match.simps)
  also have "\<dots> \<longleftrightarrow> (\<exists>pre post. map (pg_lower env) t = pre @ map (pg_lower env) q @ post)"
    by blast
  finally show ?thesis .
qed

lemma map_result_member:
  assumes "map_result f xs = Inr ys" and "y \<in> set ys"
  shows "\<exists>x \<in> set xs. f x = Inr y"
proof -
  from assms(1) have l: "list_all2 (\<lambda>x y. f x = Inr y) xs ys"
    by (simp add: map_result_Inr_iff)
  from assms(2) obtain i where i: "i < length ys" "ys ! i = y"
    by (auto simp: in_set_conv_nth)
  from l i have "f (xs ! i) = Inr y" "i < length xs"
    by (auto simp: list_all2_conv_all_nth)
  then show ?thesis by auto
qed

lemma js_invalid_regex_rows:
  assumes r: "isRegex q" and c: "compile_gi env (slice_1_m1 q) = None"
    and s: "searchMessages env db chat q lim off = Inr rows"
  shows "\<forall>row \<in> set rows. highlighted_text row = row_text row"
proof
  fix row assume row: "row \<in> set rows"
  from s obtain xs where "map_result (search_row env q) xs = Inr rows"
    by (cases "matching_messages env db chat (searchCondition q)")
      (simp_all add: searchMessages_def)
  from map_result_member [OF this row] obtain x where x: "search_row env q x = Inr row"
    by blast
  have "highlightText env (msg_text (fst x)) q True = Inr (msg_text (fst x))"
    using c by (rule highlight_uncompilable_regex)
  with search_row_fields(3,4) [OF x] r
  show "highlighted_text row = row_text row" by simp
qed

lemma endsWith_last: "endsWith s c \<longleftrightarrow> s \<noteq> [] \<and> last s = c"
  by (cases s rule: rev_cases) (simp_all add: endsWith_def)

lemma isRegex_iff: "isRegex q \<longleftrightarrow> (\<exists>p. p \<noteq> [] \<and> q = 0x2F # p @ [0x2F])"
proof
  assume r: "isRegex q"
  then obtain cs where q: "q = 0x2F # cs"
    by (auto simp: isRegex_def startsWith_def split: list.splits)
  from r q have len: "length cs > 1" by (simp add: isRegex_def)
  then have ne: "cs \<noteq> []" by auto
  from r q ne have "last cs = 0x2F"
    by (simp add: isRegex_def endsWith_last)
  with ne have c2: "cs = butlast cs @ [0x2F]"
    by (metis append_butlast_last_id)
  from len have "butlast cs \<noteq> []" by (cases cs) auto
  with q c2 show "\<exists>p. p \<noteq> [] \<and> q = 0x2F # p @ [0x2F]" by metis
next
  assume "\<exists>p. p \<noteq> [] \<and> q = 0x2F # p @ [0x2F]"
  then obtain p where "p \<noteq> []" and "q = 0x2F # p @ [0x2F]" by blast
  then show "isRegex q"
    by (cases p) (simp_all add: isRegex_def startsWith_def endsWith_last)
qed

lemma searchCondition_cases:
  "p \<noteq> [] \<Longrightarrow> searchCondition (0x2F # p @ [0x2F]) = RegexMatch p"
  "\<not> isRegex q \<Longrightarrow> searchCondition q = ILike (js ''%'' @ q @ js ''%'')"
proof -
  assume "p \<noteq> []"
  then have "isRegex (0x2F # p @ [0x2F])" using isRegex_iff by blast
  then show "searchCondition (0x2F # p @ [0x2F]) = RegexMatch p"
    by (simp add: searchCondition_def slice_1_m1_def)
next
  assume "\<not> isRegex q"
  then show "searchCondition q = ILike (js ''%'' @ q @ js ''%'')"
    by (simp add: searchCondition_def)
qed

text \<open>
  C2 on the sample chat. The classification is as stated: "/abc/" is a regex query
  with the pattern "abc", "abc" and "/abc" are literal queries. The matching is not:
  the literal query "hello" finds the two messages "hello world" and "Hello again",
  the regex query "/hello/" finds only the first, since the operator \<open>~\<close> keeps the
  case; and the literal query "h_llo", which no message contains, finds both, since
  \<open>ILIKE\<close> reads the underscore as a wildcard.
\<close>

theorem search_matching_on_sample:
  "isRegex (js ''/abc/'') \<and> searchCondition (js ''/abc/'') = RegexMatch (js ''abc'')
   \<and> \<not> isRegex (js ''abc'') \<and> \<not> isRegex (js ''/abc'')
   \<and> countSearchResults sample_engines sample_db 100 (js ''hello'') = Inr 2
   \<and> countSearchResults sample_engines sample_db 100 (js ''/hello/'') = Inr 1
   \<and> countSearchResults sample_engines sample_db 100 (js ''h_llo'') = Inr 2
   \<and> \<not> contains (js ''h_llo'') (map ascii_lower (js ''hello world''))
   \<and> \<not> contains (js ''h_llo'') (map ascii_lower (js ''Hello again''))"
  by (simp add: eval_defs plain_char_def)


section \<open>Properties of the read-through orchestrator\<close>

lemma redis_get_hit_unchanged:
  "fst (redis_get svc k) = Some d \<Longrightarrow> snd (redis_get svc k) = svc"
  by (auto simp: redis_get_def client_get_def split: if_splits)

lemma redis_get_client: "client (snd (redis_get svc k)) = client svc"
  by (simp add: redis_get_def client_get_def)

lemma entries_after_set:
  "entries (client (redis_set (snd (redis_get svc k)) k doc ttl))
     = (if rejects (client svc) (SETEX k ttl) then entries (client svc)
        else (entries (client svc))(k \<mapsto> (doc, ttl)))"
  by (simp add: redis_set_def client_setEx_def redis_get_client)

lemma getStatsData_cases:
  "(fst (redis_get svc (createStatsCacheKey c (period_name per))) = Some d \<longrightarrow>
      getStatsData svc db now c per = (mark_cached d, svc))
   \<and> (fst (redis_get svc (createStatsCacheKey c (period_name per))) = None \<longrightarrow>
      getStatsData svc db now c per
        = (StatsJson \<lparr>sd_period = per,
                       sd_totalMessages = getTotalCount db now c (getDaysLimit per),
                       sd_topUsers = getTopUsers db now c 10 (getDaysLimit per),
                       sd_cached = False\<rparr>,
           redis_set (snd (redis_get svc (createStatsCacheKey c (period_name per))))
             (createStatsCacheKey c (period_name per))
             (StatsJson \<lparr>sd_period = per,
                       sd_totalMessages = getTotalCount db now c (getDaysLimit per),
                       sd_topUsers = getTopUsers db now c 10 (getDaysLimit per),
                       sd_cached = False\<rparr>) 1200))"
proof -
  obtain a b where ab: "redis_get svc (createStatsCacheKey c (period_name per)) = (a, b)"
    by (cases "redis_get svc (createStatsCacheKey c (period_name per))")
  show ?thesis
    using ab redis_get_hit_unchanged [of svc "createStatsCacheKey c (period_name per)"]
    by (cases a) (simp_all add: getStatsData_def Let_def)
qed

lemma usersListData_cases:
  "(fst (redis_get svc (createUsersListCacheKey c)) = Some d \<longrightarrow>
      usersListData svc db now c = (d, svc))
   \<and> (fst (redis_get svc (createUsersListCacheKey c)) = None \<longrightarrow>
      usersListData svc db now c
        = (UsersListJson (getUserStats db now c None),
           redis_set (snd (redis_get svc (createUsersListCacheKey c)))
             (createUsersListCacheKey c) (UsersListJson (getUserStats db now c None)) 600))"
proof -
  obtain a b where ab: "redis_get svc (createUsersListCacheKey c) = (a, b)"
    by (cases "redis_get svc (createUsersListCacheKey c)")
  show ?thesis
    using ab redis_get_hit_unchanged [of svc "createUsersListCacheKey c"]
    by (cases a) (simp_all add: usersListData_def Let_def)
qed

lemma getUserStatsData_cases:
  "(fst (redis_get svc (createUserStatsCacheKey c u (period_name per))) = Some d \<longrightarrow>
      getUserStatsData svc db now c u per = (Inr (mark_cached d), svc))
   \<and> (fst (redis_get svc (createUserStatsCacheKey c u (period_name per))) = None \<longrightarrow>
        (findById db u = None \<longrightarrow>
           getUserStatsData svc db now c u per
             = (Inl UserNotFound,
                snd (redis_get svc (createUserStatsCacheKey c u (period_name per)))))
      \<and> (\<forall>usr. findById db u = Some usr \<longrightarrow>
           getUserStatsData svc db now c u per
             = (Inr (UserStatsJson \<lparr>ud_user = usr,
                       ud_stats = getStats db now u (getDaysLimit per),
                       ud_recentMessages = getRecentMessages db u 5, ud_cached = False\<rparr>),
                redis_set (snd (redis_get svc (createUserStatsCacheKey c u (period_name per))))
                  (createUserStatsCacheKey c u (period_name per))
                  (UserStatsJson \<lparr>ud_user = usr,
                       ud_stats = getStats db now u (getDaysLimit per),
                       ud_recentMessages = getRecentMessages db u 5, ud_cached = False\<rparr>)
                  600)))"
proof -
  obtain a b where ab: "redis_get svc (createUserStatsCacheKey c u (period_name per)) = (a, b)"
    by (cases "redis_get svc (createUserStatsCacheKey c u (period_name per))")
  show ?thesis
    using ab redis_get_hit_unchanged [of svc "createUserStatsCacheKey c u (period_name per)"]
    by (cases a) (simp_all add: getUserStatsData_def Let_def)
qed

lemma getSearchResults_cases:
  "(fst (redis_get svc (createSearchCacheKey c q p)) = Some d \<longrightarrow>
      getSearchResults svc env db c q p = (Inr (mark_cached d), svc))
   \<and> (fst (redis_get svc (createSearchCacheKey c q p)) = None \<longrightarrow>
        (\<forall>e. searchMessages env db c q 5 (p * 5) = Inl e \<longrightarrow>
           getSearchResults svc env db c q p
             = (Inl e, snd (redis_get svc (createSearchCacheKey c q p))))
      \<and> (\<forall>rows tot. searchMessages env db c q 5 (p * 5) = Inr rows
             \<and> countSearchResults env db c q = Inr tot \<longrightarrow>
           getSearchResults svc env db c q p
             = (Inr (SearchJson \<lparr>sr_query = q, sr_totalResults = tot, sr_results = rows,
                       sr_page = p, sr_totalPages = (tot + 4) div 5, sr_cached = False\<rparr>),
                redis_set (snd (redis_get svc (createSearchCacheKey c q p)))
                  (createSearchCacheKey c q p)
                  (SearchJson \<lparr>sr_query = q, sr_totalResults = tot, sr_results = rows,
                       sr_page = p, sr_totalPages = (tot + 4) div 5, sr_cached = False\<rparr>)
                  600)))"
proof -
  obtain a b where ab: "redis_get svc (createSearchCacheKey c q p) = (a, b)"
    by (cases "redis_get svc (createSearchCacheKey c q p)")
  show ?thesis
    using ab redis_get_hit_unchanged [of svc "createSearchCacheKey c q p"]
    by (cases a) (simp_all add: getSearchResults_def Let_def)
qed

text \<open>
  C3, as the code has it. When the cache store returns a value for the derived key, the
  parsed value is returned at once, marked \<open>cached = true\<close> (the user list, an array,
  is returned as it is), and neither the message store nor the cache is touched. When it
  returns none, chat stats and the user list are computed from the message store,
  returned with \<open>cached = false\<close> and written under the key for 1200 and 600 seconds;
  per-user stats and a search page likewise for 600 seconds when the user exists and
  the search succeeds, and otherwise the error is returned and nothing is written. The
  write is best effort: the value returned does not depend on it.
\<close>

theorem read_through_cache:
  "(fst (redis_get svc (createStatsCacheKey c (period_name per))) = Some d \<longrightarrow>
      getStatsData svc db now c per = (mark_cached d, svc))
   \<and> (fst (redis_get svc (createStatsCacheKey c (period_name per))) = None \<longrightarrow>
      fst (getStatsData svc db now c per)
        = StatsJson \<lparr>sd_period = per,
                      sd_totalMessages = getTotalCount db now c (getDaysLimit per),
                      sd_topUsers = getTopUsers db now c 10 (getDaysLimit per),
                      sd_cached = False\<rparr>
      \<and> stored_best_effort svc (snd (getStatsData svc db now c per))
           (createStatsCacheKey c (period_name per)) (fst (getStatsData svc db now c per)) 1200)
   \<and> (fst (redis_get svc (createUsersListCacheKey c)) = Some d \<longrightarrow>
      usersListData svc db now c = (d, svc))
   \<and> (fst (redis_get svc (createUsersListCacheKey c)) = None \<longrightarrow>
      fst (usersListData svc db now c) = UsersListJson (getUserStats db now c None)
      \<and> stored_best_effort svc (snd (usersListData svc db now c))
           (createUsersListCacheKey c) (fst (usersListData svc db now c)) 600)
   \<and> (fst (redis_get svc (createUserStatsCacheKey c u (period_name per))) = Some d \<longrightarrow>
      getUserStatsData svc db now c u per = (Inr (mark_cached d), svc))
   \<and> (fst (redis_get svc (createUserStatsCacheKey c u (period_name per))) = None \<longrightarrow>
        (findById db u = None \<longrightarrow>
           fst (getUserStatsData svc db now c u per) = Inl UserNotFound
           \<and> entries (client (snd (getUserStatsData svc db now c u per)))
               = entries (client svc))
      \<and> (\<forall>usr. findById db u = Some usr \<longrightarrow>
           fst (getUserStatsData svc db now c u per)
             = Inr (UserStatsJson \<lparr>ud_user = usr,
                      ud_stats = getStats db now u (getDaysLimit per),
                      ud_recentMessages = getRecentMessages db u 5, ud_cached = False\<rparr>)
           \<and> stored_best_effort svc (snd (getUserStatsData svc db now c u per))
                (createUserStatsCacheKey c u (period_name per))
                (UserStatsJson \<lparr>ud_user = usr,
                      ud_stats = getStats db now u (getDaysLimit per),
                      ud_recentMessages = getRecentMessages db u 5, ud_cached = False\<rparr>)
                600))
   \<and> (fst (redis_get svc (createSearchCacheKey c q p)) = Some d \<longrightarrow>
      getSearchResults svc env db c q p = (Inr (mark_cached d), svc))
   \<and> (fst (redis_get svc (createSearchCacheKey c q p)) = None \<longrightarrow>
        (\<forall>e. searchMessages env db c q 5 (p * 5) = Inl e \<longrightarrow>
           fst (getSearchResults svc env db c q p) = Inl e
           \<and> entries (client (snd (getSearchResults svc env db c q p)))
               = entries (client svc))
      \<and> (\<forall>rows tot. searchMessages env db c q 5 (p * 5) = Inr rows
             \<and> countSearchResults env db c q = Inr tot \<longrightarrow>
           fst (getSearchResults svc env db c q p)
             = Inr (SearchJson \<lparr>sr_query = q, sr_totalResults = tot, sr_results = rows,
                      sr_page = p, sr_totalPages = (tot + 4) div 5, sr_cached = False\<rparr>)
           \<and> stored_best_effort svc (snd (getSearchResults svc env db c q p))
                (createSearchCacheKey c q p)
                (SearchJson \<lparr>sr_query = q, sr_totalResults = tot, sr_results = rows,
                      sr_page = p, sr_totalPages = (tot + 4) div 5, sr_cached = False\<rparr>)
                600))"
proof -
  note st = getStatsData_cases [of svc c per d db now]
  note ul = usersListData_cases [of svc c d db now]
  note us = getUserStatsData_cases [of svc c u per d db now]
  note se = getSearchResults_cases [of svc c q p d env db]
  have 1: "fst (redis_get svc (createStatsCacheKey c (period_name per))) = Some d \<longrightarrow>
      getStatsData svc db now c per = (mark_cached d, svc)"
    using st by blast
  have 2: "fst (redis_get svc (createStatsCacheKey c (period_name per))) = None \<longrightarrow>
      fst (getStatsData svc db now c per)
        = StatsJson \<lparr>sd_period = per,
                      sd_totalMessages = getTotalCount db now c (getDaysLimit per),
                      sd_topUsers = getTopUsers db now c 10 (getDaysLimit per),
                      sd_cached = False\<rparr>
      \<and> stored_best_effort svc (snd (getStatsData svc db now c per))
           (createStatsCacheKey c (period_name per)) (fst (getStatsData svc db now c per)) 1200"
    using st by (simp add: stored_best_effort_def entries_after_set)
  have 3: "fst (redis_get svc (createUsersListCacheKey c)) = Some d \<longrightarrow>
      usersListData svc db now c = (d, svc)"
    using ul by blast
  have 4: "fst (redis_get svc (createUsersListCacheKey c)) = None \<longrightarrow>
      fst (usersListData svc db now c) = UsersListJson (getUserStats db now c None)
      \<and> stored_best_effort svc (snd (usersListData svc db now c))
           (createUsersListCacheKey c) (fst (usersListData svc db now c)) 600"
    using ul by (simp add: stored_best_effort_def entries_after_set)
  have 5: "fst (redis_get svc (createUserStatsCacheKey c u (period_name per))) = Some d \<longrightarrow>
      getUserStatsData svc db now c u per = (Inr (mark_cached d), svc)"
    using us by blast
  have 6: "fst (redis_get svc (createUserStatsCacheKey c u (period_name per))) = None \<longrightarrow>
        (findById db u = None \<longrightarrow>
           fst (getUserStatsData svc db now c u per) = Inl UserNotFound
           \<and> entries (client (snd (getUserStatsData svc db now c u per)))
               = entries (client svc))
      \<and> (\<forall>usr. findById db u = Some usr \<longrightarrow>
           fst (getUserStatsData svc db now c u per)
             = Inr (UserStatsJson \<lparr>ud_user = usr,
                      ud_stats = getStats db now u (getDaysLimit per),
                      ud_recentMessages = getRecentMessages db u 5, ud_cached = False\<rparr>)
           \<and> stored_best_effort svc (snd (getUserStatsData svc db now c u per))
                (createUserStatsCacheKey c u (period_name per))
                (UserStatsJson \<lparr>ud_user = usr,
                      ud_stats = getStats db now u (getDaysLimit per),
                      ud_recentMessages = getRecentMessages db u 5, ud_cached = False\<rparr>)
                600)"
    using us by (simp add: stored_best_effort_def entries_after_set redis_get_client)
  have 7: "fst (redis_get svc (createSearchCacheKey c q p)) = Some d \<longrightarrow>
      getSearchResults svc env db c q p = (Inr (mark_cached d), svc)"
    using se by blast
  have 8: "fst (redis_get svc (createSearchCacheKey c q p)) = None \<longrightarrow>
        (\<forall>e. searchMessages env db c q 5 (p * 5) = Inl e \<longrightarrow>
           fst (getSearchResults svc env db c q p) = Inl e
           \<and> entries (client (snd (getSearchResults svc env db c q p)))
               = entries (client svc))
      \<and> (\<forall>rows tot. searchMessages env db c q 5 (p * 5) = Inr rows
             \<and> countSearchResults env db c q = Inr tot \<longrightarrow>
           fst (getSearchResults svc env db c q p)
             = Inr (SearchJson \<lparr>sr_query = q, sr_totalResults = tot, sr_results = rows,
                      sr_page = p, sr_totalPages = (tot + 4) div 5, sr_cached = False\<rparr>)
           \<and> stored_best_effort svc (snd (getSearchResults svc env db c q p))
                (createSearchCacheKey c q p)
                (SearchJson \<lparr>sr_query = q, sr_totalResults = tot, sr_results = rows,
                      sr_page = p, sr_totalPages = (tot + 4) div 5, sr_cached = False\<rparr>)
                600)"
    using se by (simp add: stored_best_effort_def entries_after_set redis_get_client)
  from 1 2 3 4 5 6 7 8 show ?thesis by blast
qed

theorem read_through_cache_witness:
  "fst (getStatsData empty_cache sample_db 0 100 Week)
     = StatsJson \<lparr>sd_period = Week, sd_totalMessages = 3,
         sd_topUsers = [\<lparr>cu_user_id = 1, cu_username = Some (js ''alice''),
                          cu_first_name = None, cu_last_name = None, cu_message_count = 2\<rparr>,
                        \<lparr>cu_user_id = 2, cu_username = None,
                          cu_first_name = Some (js ''Bob''), cu_last_name = None,
                          cu_message_count = 1\<rparr>],
         sd_cached = False\<rparr>
   \<and> entries (client (snd (getStatsData empty_cache sample_db 0 100 Week)))
        (js ''stats:100:week'')
     = Some (fst (getStatsData empty_cache sample_db 0 100 Week), 1200)
   \<and> getStatsData (snd (getStatsData empty_cache sample_db 0 100 Week)) sample_db 0 100 Week
     = (mark_cached (fst (getStatsData empty_cache sample_db 0 100 Week)),
        snd (getStatsData empty_cache sample_db 0 100 Week))"
proof -
  let ?k = "createStatsCacheKey 100 (period_name Week)"
  let ?r = "getStatsData empty_cache sample_db 0 100 Week"
  have k: "?k = js ''stats:100:week''"
    by (simp add: createStatsCacheKey_def number_to_string_def digits_of_nat.simps
        digit_char_def js_def)
  have miss: "fst (redis_get empty_cache ?k) = None"
    by (simp add: redis_get_def client_get_def empty_cache_def)
  have acc: "\<not> rejects (client empty_cache) cmd" for cmd
    by (simp add: empty_cache_def)
  from read_through_cache [of empty_cache 100 Week _ sample_db 0] miss
  have doc: "fst ?r
        = StatsJson \<lparr>sd_period = Week,
                      sd_totalMessages = getTotalCount sample_db 0 100 (getDaysLimit Week),
                      sd_topUsers = getTopUsers sample_db 0 100 10 (getDaysLimit Week),
                      sd_cached = False\<rparr>"
    and st: "stored_best_effort empty_cache (snd ?r) ?k (fst ?r) 1200"
    by blast+
  have tot: "getTotalCount sample_db 0 100 (getDaysLimit Week) = 3"
    by (simp add: getTotalCount_def truthy_days_def in_window_def sample_db_def msg1_def
        msg2_def msg3_def)
  have top: "getTopUsers sample_db 0 100 10 (getDaysLimit Week)
      = [\<lparr>cu_user_id = 1, cu_username = Some (js ''alice''),
           cu_first_name = None, cu_last_name = None, cu_message_count = 2\<rparr>,
         \<lparr>cu_user_id = 2, cu_username = None,
           cu_first_name = Some (js ''Bob''), cu_last_name = None, cu_message_count = 1\<rparr>]"
    by (simp add: getTopUsers_def getUserStats_def truthy_days_def in_window_def sample_db_def
        msg1_def msg2_def msg3_def alice_def bob_def join_users_def findById_def
        map_filter_simps Let_def)
  have a: "fst ?r = StatsJson \<lparr>sd_period = Week, sd_totalMessages = 3,
         sd_topUsers = [\<lparr>cu_user_id = 1, cu_username = Some (js ''alice''),
                          cu_first_name = None, cu_last_name = None, cu_message_count = 2\<rparr>,
                        \<lparr>cu_user_id = 2, cu_username = None,
                          cu_first_name = Some (js ''Bob''), cu_last_name = None,
                          cu_message_count = 1\<rparr>],
         sd_cached = False\<rparr>"
    using doc tot top by simp
  have ent: "entries (client (snd ?r)) ?k = Some (fst ?r, 1200)"
    using st acc by (simp add: stored_best_effort_def)
  have rj: "rejects (client (snd ?r)) = rejects (client empty_cache)"
    by (simp add: getStatsData_def redis_get_def redis_set_def client_get_def client_setEx_def
        empty_cache_def Let_def)
  have hit: "fst (redis_get (snd ?r) ?k) = Some (fst ?r)"
    using acc ent by (simp add: redis_get_def client_get_def rj)
  from read_through_cache [of "snd ?r" 100 Week "fst ?r" sample_db 0] hit
  have b: "getStatsData (snd ?r) sample_db 0 100 Week = (mark_cached (fst ?r), snd ?r)"
    by blast
  from a ent b show ?thesis unfolding k by simp
qed

text \<open>
  C3 as the specification words it has every miss computed, returned and stored, and
  every hit returned with \<open>cached = true\<close>. On the sample chat: per-user stats for the unknown
  user 7 miss the cache, raise "User not found" and store nothing; and the user list
  read back from the cache carries no \<open>cached\<close> field.
\<close>

theorem read_through_counterexample:
  "fst (redis_get empty_cache (createUserStatsCacheKey 100 7 (period_name All))) = None
   \<and> fst (getUserStatsData empty_cache sample_db 0 100 7 All) = Inl UserNotFound
   \<and> entries (client (snd (getUserStatsData empty_cache sample_db 0 100 7 All))) = Map.empty
   \<and> fst (redis_get (snd (usersListData empty_cache sample_db 0 100))
            (createUsersListCacheKey 100))
        = Some (fst (usersListData empty_cache sample_db 0 100))
   \<and> cached_flag (fst (usersListData (snd (usersListData empty_cache sample_db 0 100))
                          sample_db 0 100)) = None"
proof -
  have g: "redis_get empty_cache k = (None, empty_cache)" for k
    by (simp add: redis_get_def client_get_def empty_cache_def)
  have a: "fst (redis_get empty_cache (createUserStatsCacheKey 100 7 (period_name All))) = None"
    by (simp add: g)
  have nf: "findById sample_db 7 = None"
    by (simp add: findById_def sample_db_def alice_def bob_def)
  have b: "getUserStatsData empty_cache sample_db 0 100 7 All = (Inl UserNotFound, empty_cache)"
    by (simp add: getUserStatsData_def g nf)
  have c: "entries (client empty_cache) = Map.empty"
    by (simp add: empty_cache_def)
  have u: "usersListData empty_cache sample_db 0 100
      = (UsersListJson (getUserStats sample_db 0 100 None),
         redis_set empty_cache (createUsersListCacheKey 100)
           (UsersListJson (getUserStats sample_db 0 100 None)) 600)"
    by (simp add: usersListData_def g Let_def)
  have r: "redis_get (redis_set empty_cache k v 600) k
      = (Some v, redis_set empty_cache k v 600)" for k v
    by (simp add: redis_get_def redis_set_def client_get_def client_setEx_def empty_cache_def)
  have d: "fst (redis_get (snd (usersListData empty_cache sample_db 0 100))
            (createUsersListCacheKey 100))
        = Some (fst (usersListData empty_cache sample_db 0 100))"
    by (simp add: u r)
  have e: "cached_flag (fst (usersListData (snd (usersListData empty_cache sample_db 0 100))
                          sample_db 0 100)) = None"
    unfolding u by (simp add: usersListData_def r Let_def)
  from a b c d e show ?thesis by simp
qed


section \<open>Properties of the search read path\<close>





lemma rejected_pattern_fails:
  assumes "isRegex q" and "pg_regex env (slice_1_m1 q) = None"
  shows "searchMessages env db c q lim off = Inl StoreFailure"
    and "countSearchResults env db c q = Inl StoreFailure"
    and "fst (redis_get svc (createSearchCacheKey c q p)) = None \<Longrightarrow>
         fst (getSearchResults svc env db c q p) = Inl StoreFailure"
proof -
  from assms have mm: "matching_messages env db c (searchCondition q) = Inl StoreFailure"
    by (simp add: matching_messages_def condition_holds_def searchCondition_def)
  then show s: "searchMessages env db c q lim off = Inl StoreFailure" for lim off
    by (simp add: searchMessages_def)
  from mm show "countSearchResults env db c q = Inl StoreFailure"
    by (simp add: countSearchResults_def)
  assume "fst (redis_get svc (createSearchCacheKey c q p)) = None"
  then show "fst (getSearchResults svc env db c q p) = Inl StoreFailure"
    using getSearchResults_cases [of svc c q p _ env db] s [of 5 "p * 5"] by simp
qed

text \<open>
  C4 on the sample chat. \<open>highlightText\<close> gives the text back for the query
  "/[invalid/", as its test says; but the search never gets that far: the database
  rejects the pattern, the query fails, \<open>getSearchResults\<close> fails with it and the
  handler answers that the search failed.
\<close>

theorem invalid_regex_on_sample:
  "highlightText sample_engines (js ''hello world'') (js ''/[invalid/'') True
     = Inr (js ''hello world'')
   \<and> searchMessages sample_engines sample_db 100 (js ''/[invalid/'') 5 0 = Inl StoreFailure
   \<and> fst (getSearchResults empty_cache sample_engines sample_db 100 (js ''/[invalid/'') 0)
       = Inl StoreFailure
   \<and> fst (handleSearchCommand (\<lambda>d. Some d) empty_cache sample_engines sample_db
            (Some (GroupChat, 100)) (Some (js ''/search /[invalid/'')))
       = [Searching, SearchFailed]"
proof -
  have r: "isRegex (js ''/[invalid/'')"
    by (simp add: eval_defs)
  have p: "pg_regex sample_engines (slice_1_m1 (js ''/[invalid/'')) = None"
    by (simp add: eval_defs plain_char_def)
  have c: "compile_gi sample_engines (slice_1_m1 (js ''/[invalid/'')) = None"
    by (simp add: eval_defs)
  have miss: "fst (redis_get empty_cache k) = None" for k
    by (simp add: redis_get_def client_get_def empty_cache_def)
  have q: "trim (after_first_space (js ''/search /[invalid/'')) = js ''/[invalid/''"
    by (simp add: trim_def after_first_space_def js_def js_space_def)
  have g: "fst (getSearchResults empty_cache sample_engines sample_db 100
      (js ''/[invalid/'') 0) = Inl StoreFailure"
    using rejected_pattern_fails(3) [OF r p miss] .
  have ne: "js ''/[invalid/'' \<noteq> []" by (simp add: js_def)
  have h: "fst (handleSearchCommand (\<lambda>d. Some d) empty_cache sample_engines sample_db
            (Some (GroupChat, 100)) (Some (js ''/search /[invalid/'')))
       = [Searching, SearchFailed]"
    using g ne
    by (cases "getSearchResults empty_cache sample_engines sample_db 100 (js ''/[invalid/'') 0")
      (simp add: handleSearchCommand_def q Let_def)
  from highlight_uncompilable_regex [OF c] rejected_pattern_fails(1) [OF r p] g h
  show ?thesis by blast
qed

lemma trim_empty: "trim q = [] \<Longrightarrow> \<forall>c \<in> set q. js_space c"
proof -
  assume "trim q = []"
  then have a: "\<forall>c \<in> set (dropWhile js_space q). js_space c"
    by (simp add: trim_def dropWhile_eq_Nil_conv)
  have "dropWhile js_space q = []"
  proof (rule ccontr)
    assume ne: "dropWhile js_space q \<noteq> []"
    then have "\<not> js_space (hd (dropWhile js_space q))" by (rule hd_dropWhile)
    moreover have "hd (dropWhile js_space q) \<in> set (dropWhile js_space q)"
      using ne by simp
    ultimately show False using a by blast
  qed
  then show ?thesis by (simp add: dropWhile_eq_Nil_conv)
qed

lemma blank_not_regex: "trim q = [] \<Longrightarrow> \<not> isRegex q"
proof
  assume t: "trim q = []" and r: "isRegex q"
  from r obtain cs where "q = 0x2F # cs"
    by (auto simp: isRegex_def startsWith_def split: list.splits)
  with trim_empty [OF t] have "js_space 0x2F" by simp
  then show False by (simp add: js_space_def)
qed

lemma literal_search_succeeds:
  assumes "\<not> isRegex q"
  shows "\<exists>doc. fst (getSearchResults svc env db c q p) = Inr doc"
proof (cases "fst (redis_get svc (createSearchCacheKey c q p))")
  case (Some d)
  then show ?thesis
    using getSearchResults_cases [of svc c q p d env db] by simp
next
  case None
  from search_engine_pages [where db = db and c = c, OF condition_holds_literal [OF assms]]
  obtain full where
    "searchMessages env db c q 5 (p * 5) = Inr (take 5 (drop (p * 5) full))"
    and "\<exists>n. countSearchResults env db c q = Inr n"
    by blast
  with None show ?thesis
    using getSearchResults_cases [of svc c q p _ env db] by auto
qed

text \<open>
  C8, as the code has it. There is no error for an invalid query. A \<open>/search\<close> command
  of a group chat whose arguments are empty after trimming gets the usage instructions
  as its only reply, and neither the cache nor the message store is asked; with any
  other arguments the first reply announces the search. \<open>getSearchResults\<close> checks
  nothing: for a query that is empty or white space only it never fails, it returns a
  result page; and the empty query matches every message of the chat (the case folding
  of the database leaving \<open>%\<close> as it is).
\<close>

theorem empty_query_usage:
  "(trim (case msg of None \<Rightarrow> [] | Some t \<Rightarrow> after_first_space t) = []
      \<and> (ty = GroupChat \<or> ty = SuperGroup) \<longrightarrow>
      handleSearchCommand fmt svc env db (Some (ty, c)) msg = ([Usage], svc))
   \<and> (trim (case msg of None \<Rightarrow> [] | Some t \<Rightarrow> after_first_space t) \<noteq> []
      \<and> (ty = GroupChat \<or> ty = SuperGroup) \<longrightarrow>
      hd (fst (handleSearchCommand fmt svc env db (Some (ty, c)) msg)) = Searching)
   \<and> (trim q = [] \<longrightarrow> (\<exists>doc. fst (getSearchResults svc env db c q p) = Inr doc))
   \<and> (pg_lower env 0x25 = 0x25 \<longrightarrow>
        countSearchResults env db c []
          = Inr (length (filter (\<lambda>m. chat_id m = c) (messages db))))"
proof -
  have a: "trim (case msg of None \<Rightarrow> [] | Some t \<Rightarrow> after_first_space t) = []
      \<and> (ty = GroupChat \<or> ty = SuperGroup) \<longrightarrow>
      handleSearchCommand fmt svc env db (Some (ty, c)) msg = ([Usage], svc)"
    by (auto simp: handleSearchCommand_def Let_def)
  have b: "trim (case msg of None \<Rightarrow> [] | Some t \<Rightarrow> after_first_space t) \<noteq> []
      \<and> (ty = GroupChat \<or> ty = SuperGroup) \<longrightarrow>
      hd (fst (handleSearchCommand fmt svc env db (Some (ty, c)) msg)) = Searching"
    by (auto simp: handleSearchCommand_def Let_def split: prod.splits sum.splits option.splits)
  have c: "trim q = [] \<longrightarrow> (\<exists>doc. fst (getSearchResults svc env db c q p) = Inr doc)"
    using literal_search_succeeds [OF blank_not_regex] by blast
  have d: "pg_lower env 0x25 = 0x25 \<longrightarrow>
        countSearchResults env db c []
          = Inr (length (filter (\<lambda>m. chat_id m = c) (messages db)))"
  proof
    assume low: "pg_lower env 0x25 = 0x25"
    have "\<not> isRegex []" by (simp add: isRegex_def startsWith_def)
    then have h: "condition_holds env (searchCondition [])
        = Some (\<lambda>t. ilike env t (js ''%'' @ [] @ js ''%''))"
      by (rule condition_holds_literal)
    have "like_plain (map (pg_lower env) [])" by (simp add: like_plain_def)
    from literal_query_is_substring [OF low this]
    have "ilike env t (js ''%'' @ [] @ js ''%'')" for t
      by (simp add: exI [of _ "[]"])
    with h show "countSearchResults env db c []
          = Inr (length (filter (\<lambda>m. chat_id m = c) (messages db)))"
      by (simp add: countSearchResults_def matching_messages_def)
  qed
  from a b c d show ?thesis by blast
qed

theorem empty_query_usage_witness:
  "handleSearchCommand (\<lambda>d. Some d) empty_cache sample_engines sample_db
      (Some (GroupChat, 100)) (Some (js ''/search  ''))
     = ([Usage], empty_cache)
   \<and> (\<exists>doc. fst (getSearchResults empty_cache sample_engines sample_db 100 (js ''  '') 0)
        = Inr doc)"
proof -
  have t: "trim (case Some (js ''/search  '') of None \<Rightarrow> [] | Some t \<Rightarrow> after_first_space t) = []"
    by (simp add: trim_def after_first_space_def js_def js_space_def)
  have t2: "trim (js ''  '') = []"
    by (simp add: trim_def js_def js_space_def)
  note inst = empty_query_usage [of "Some (js ''/search  '')" GroupChat "\<lambda>d. Some d" empty_cache
      sample_engines sample_db 100 "js ''  ''" 0]
  from inst t have a: "handleSearchCommand (\<lambda>d. Some d) empty_cache sample_engines sample_db
      (Some (GroupChat, 100)) (Some (js ''/search  '')) = ([Usage], empty_cache)"
    by blast
  from inst t2 have b: "\<exists>doc. fst (getSearchResults empty_cache sample_engines sample_db 100
      (js ''  '') 0) = Inr doc"
    by blast
  from a b show ?thesis by blast
qed

text \<open>
  C8 as the specification words it makes the search of an empty query fail. On the
  sample chat the empty query is a successful search that finds all three messages.
\<close>

theorem empty_query_counterexample:
  "trim [] = []
   \<and> (\<exists>r. fst (getSearchResults empty_cache sample_engines sample_db 100 [] 0)
             = Inr (SearchJson r)
          \<and> sr_totalResults r = 3 \<and> map row_id (sr_results r) = [3, 2, 1])"
proof -
  have "trim [] = []" by (simp add: trim_def)
  moreover have "\<exists>r. fst (getSearchResults empty_cache sample_engines sample_db 100 [] 0)
             = Inr (SearchJson r)
          \<and> sr_totalResults r = 3 \<and> map row_id (sr_results r) = [3, 2, 1]"
    by (simp add: eval_cache eval_defs)
  ultimately show ?thesis by blast
qed

end
